theory Spec2Isabelle
  imports Main "HOL-Library.Word"
begin

unbundle bit_operations_syntax

section \<open>Alarm service: millisecond to tick conversion\<close>

text \<open>
  \<^verbatim>\<open>ms_to_ticks\<close> of \<^verbatim>\<open>libtock-sync/services/alarm.c\<close>. The alarm frequency, which the
  source obtains by the command \<^verbatim>\<open>libtock_alarm_command_get_frequency\<close>, is the first
  argument. The two 32-bit quantities are widened to 64 bits before the multiplications,
  as the casts of the source do; the \<^verbatim>\<open>assert\<close> on the 64-bit sum is the result
  \<open>None\<close>.
\<close>

definition ms_to_ticks :: "32 word \<Rightarrow> 32 word \<Rightarrow> 32 word option" where
  "ms_to_ticks frequency ms =
     (let seconds = ms div 10;
          leftover_millis = ms mod 1000;
          milliseconds_per_second = (1000 :: 32 word);
          ticks0 = (ucast seconds :: 64 word) * ucast frequency;
          ticks = ticks0 + ((ucast leftover_millis :: 64 word) * ucast frequency)
                             div ucast milliseconds_per_second
      in if ticks \<le> 0xFFFFFFFF then Some (ucast ticks) else None)"

text \<open>
  The conversion as the specification words it: whole seconds times the frequency, plus
  the leftover milliseconds scaled by the frequency, in exact integer arithmetic.
\<close>

definition ms_to_ticks_spec :: "nat \<Rightarrow> nat \<Rightarrow> nat" where
  "ms_to_ticks_spec f ms = (ms div 1000) * f + ((ms mod 1000) * f) div 1000"

section \<open>Alarm service: waiting for a flag with a timeout\<close>

text \<open>
  \<^verbatim>\<open>libtocksync_alarm_yield_for_with_timeout\<close> of \<^verbatim>\<open>libtock-sync/services/alarm.c\<close>.
  The state is the flag \<^verbatim>\<open>*cond\<close> of the caller, the shared flag
  \<^verbatim>\<open>yf_timeout_data.fired\<close>, and the number of timers armed with \<^verbatim>\<open>yf_timeout_cb\<close>
  that have neither expired nor been cancelled.
\<close>

record bridge_state =
  cond :: bool
  fired :: bool
  pending_alarms :: nat

text \<open>
  What one \<^verbatim>\<open>yield\<close> runs: the upcall that sets the flag waited on, the expiry of a
  timer, or an upcall that touches neither flag.
\<close>

datatype upcall = CondUpcall | AlarmUpcall | OtherUpcall

definition RETURNCODE_SUCCESS :: int where
  "RETURNCODE_SUCCESS = 0"

definition RETURNCODE_FAIL :: int where
  "RETURNCODE_FAIL = - 1"

definition yf_timeout_cb :: "bridge_state \<Rightarrow> bridge_state" where
  "yf_timeout_cb st = st\<lparr>fired := True\<rparr>"

text \<open>
  Modelled from the spec: \<^verbatim>\<open>libtock_alarm_in_ms\<close> of the timer library, whose code is
  not among the sources. A timed delay is a one-shot operation: the call arms one more
  timer, which will run \<^verbatim>\<open>yf_timeout_cb\<close> when it expires.
\<close>

definition libtock_alarm_in_ms :: "32 word \<Rightarrow> bridge_state \<Rightarrow> bridge_state" where
  "libtock_alarm_in_ms ms st = st\<lparr>pending_alarms := pending_alarms st + 1\<rparr>"

text \<open>
  Modelled from the spec: \<^verbatim>\<open>libtock_alarm_cancel\<close> of the timer library. It takes the
  timer out if it is still pending; on a timer that has expired it does nothing.
\<close>

definition libtock_alarm_cancel :: "bridge_state \<Rightarrow> bridge_state" where
  "libtock_alarm_cancel st = st\<lparr>pending_alarms := pending_alarms st - 1\<rparr>"

text \<open>
  Modelled from the spec: \<^verbatim>\<open>yield\<close> of the scheduler, which runs one pending upcall.
  A timer expires at most once, and then runs its callback; with no timer pending, no
  expiry is delivered.
\<close>

fun deliver :: "upcall \<Rightarrow> bridge_state \<Rightarrow> bridge_state" where
  "deliver CondUpcall st = st\<lparr>cond := True\<rparr>"
| "deliver AlarmUpcall st =
     (if 0 < pending_alarms st
      then yf_timeout_cb (st\<lparr>pending_alarms := pending_alarms st - 1\<rparr>) else st)"
| "deliver OtherUpcall st = st"

text \<open>
  The \<^verbatim>\<open>while (!*cond)\<close> loop with what follows it. Each \<^verbatim>\<open>yield\<close> takes the next
  upcall; when none is left the loop waits for ever, which is the result \<open>None\<close>.
\<close>

fun yield_loop :: "upcall list \<Rightarrow> bridge_state \<Rightarrow> (int \<times> bridge_state) option" where
  "yield_loop [] st =
     (if cond st then Some (RETURNCODE_SUCCESS, libtock_alarm_cancel st)
      else if fired st then Some (RETURNCODE_FAIL, st)
      else None)"
| "yield_loop (u # us) st =
     (if cond st then Some (RETURNCODE_SUCCESS, libtock_alarm_cancel st)
      else if fired st then Some (RETURNCODE_FAIL, st)
      else yield_loop us (deliver u st))"

definition libtocksync_alarm_yield_for_with_timeout ::
  "upcall list \<Rightarrow> 32 word \<Rightarrow> bridge_state \<Rightarrow> (int \<times> bridge_state) option" where
  "libtocksync_alarm_yield_for_with_timeout upcalls ms st =
     yield_loop upcalls (libtock_alarm_in_ms ms (st\<lparr>fired := False\<rparr>))"

section \<open>HOTP application: data model\<close>

text \<open>
  \<^verbatim>\<open>examples/tutorials/hotp/hotp_oracle_complete/main.c\<close>. A key slot is the packed
  struct \<^verbatim>\<open>hotp_key_t\<close>; the array fields are byte lists (16 and 64 bytes in a
  well-formed slot).
\<close>

type_synonym byte = "8 word"

type_synonym counter_t = "64 word"

definition NUM_KEYS :: int where
  "NUM_KEYS = 4"

definition key_digits :: "int list" where
  "key_digits = [6, 6, 7, 8]"

record hotp_key =
  len :: byte
  iv :: "byte list"
  key :: "byte list"
  counter :: counter_t

text \<open>An index is inside the arrays \<^verbatim>\<open>keys\<close> and \<^verbatim>\<open>key_digits\<close>.\<close>

definition in_bounds :: "int \<Rightarrow> bool" where
  "in_bounds i \<longleftrightarrow> 0 \<le> i \<and> i < NUM_KEYS"

definition wf_key :: "hotp_key \<Rightarrow> bool" where
  "wf_key k \<longleftrightarrow> length (iv k) = 16 \<and> length (key k) = 64"

text \<open>Decimal digits of a natural number, most significant first, as \<^verbatim>\<open>printf\<close> writes them.\<close>

definition digit_char :: "nat \<Rightarrow> char" where
  "digit_char d = char_of (of_char CHR ''0'' + d)"

fun decimal :: "nat \<Rightarrow> string" where
  "decimal n = (if n < 10 then [digit_char n] else decimal (n div 10) @ [digit_char (n mod 10)])"

section \<open>HOTP application: state, collaborators and outcomes\<close>

text \<open>What the application shows to the outside, in the order it happens.\<close>

datatype console_msg =
    MsgErrorRc int
  | MsgCouldNotStoreKey
  | MsgCannotDecode
  | MsgCannotEncrypt
  | MsgProgrammed string int
  | MsgHmacFailure int
  | MsgUsbError int
  | MsgCounterTyped "32 word" string
  | MsgCode string
  | MsgProgramPrompt int
  | MsgCancelHint
  | MsgAborted
  | MsgNotConfigured int

datatype event =
    LedOn int
  | LedOff int
  | Printf console_msg
  | Putnstr string
  | KvSetSync string "byte list" int
  | UsbKeyboardSend string int

text \<open>
  The collaborators whose code is outside the application: return codes of the key-value
  store, the base32 decoder and the cipher of \<^verbatim>\<open>oracle.h\<close>, the HMAC driver and the
  USB keyboard. \<^verbatim>\<open>encrypt\<close> and \<^verbatim>\<open>decrypt\<close> write into caller buffers, so they take
  the old contents and give the new ones with the return value. \<open>uninit_hmac_output_buf\<close>
  is what the stack holds where \<^verbatim>\<open>hmac_output_buf\<close> is allocated.
\<close>

record env =
  kv_get_error :: "string \<Rightarrow> int"
  kv_set_error :: "string \<Rightarrow> int"
  base32_decode :: "string \<Rightarrow> int \<times> byte list"
  encrypt :: "byte list \<Rightarrow> int \<Rightarrow> byte list \<Rightarrow> byte list \<Rightarrow> int \<times> byte list \<times> byte list"
  decrypt :: "byte list \<Rightarrow> byte list \<Rightarrow> byte \<Rightarrow> int \<times> byte list"
  hmac_set_callback :: int
  hmac_set_key_buffer :: int
  hmac_set_dest_buffer :: int
  hmac_set_data_buffer :: int
  hmac_set_algorithm :: int
  hmac_run :: int
  hmac_upcall_arrives :: bool
  hmac_sha256 :: "byte list \<Rightarrow> int \<Rightarrow> byte list \<Rightarrow> byte list"
  uninit_hmac_output_buf :: "byte list"
  usbkeyboardhid_exists :: bool
  usb_keyboard_hid_send_string_sync :: "string \<Rightarrow> int"

text \<open>
  The globals \<^verbatim>\<open>keys\<close> and \<^verbatim>\<open>pressed_btn_num\<close>, the contents of the key-value store,
  the console input still to be read, and the events so far.
\<close>

record app_state =
  keys :: "hotp_key list"
  pressed_btn_num :: int
  kv_store :: "string \<rightharpoonup> byte list"
  console_input :: "char list"
  trace :: "event list"

text \<open>
  A call returns, waits for ever on an event that never comes, or indexes \<^verbatim>\<open>keys\<close>
  outside its four entries (undefined behaviour in C, made a result here).
\<close>

datatype 'a outcome = Returns 'a | Blocks | OutOfBounds int

definition bind_outcome :: "'a outcome \<Rightarrow> ('a \<Rightarrow> 'b outcome) \<Rightarrow> 'b outcome" where
  "bind_outcome m f = (case m of Returns x \<Rightarrow> f x | Blocks \<Rightarrow> Blocks | OutOfBounds i \<Rightarrow> OutOfBounds i)"

definition emit :: "event list \<Rightarrow> app_state \<Rightarrow> app_state" where
  "emit evs s = s\<lparr>trace := trace s @ evs\<rparr>"

definition upd_key :: "int \<Rightarrow> (hotp_key \<Rightarrow> hotp_key) \<Rightarrow> app_state \<Rightarrow> app_state" where
  "upd_key slot_num f s = s\<lparr>keys := (keys s)[nat slot_num := f (keys s ! nat slot_num)]\<rparr>"

section \<open>Persistent key handling\<close>

text \<open>
  The bytes of the packed struct, as \<^verbatim>\<open>memcpy\<close> moves them: \<^verbatim>\<open>len\<close>, \<^verbatim>\<open>iv\<close>,
  \<^verbatim>\<open>key\<close>, then the counter with its least significant byte first (the boards that run
  the application are little-endian).
\<close>

definition counter_le_bytes :: "counter_t \<Rightarrow> byte list" where
  "counter_le_bytes c = map (\<lambda>i. ucast (drop_bit (8 * i) c)) [0..<8]"

definition serialize :: "hotp_key \<Rightarrow> byte list" where
  "serialize k = len k # iv k @ key k @ counter_le_bytes (counter k)"

definition counter_of_le_bytes :: "byte list \<Rightarrow> counter_t" where
  "counter_of_le_bytes bs = foldr (\<lambda>b acc. ucast b OR push_bit 8 acc) bs 0"

definition deserialize :: "byte list \<Rightarrow> hotp_key" where
  "deserialize bs = \<lparr> len = bs ! 0, iv = take 16 (drop 1 bs), key = take 64 (drop 17 bs),
                       counter = counter_of_le_bytes (take 8 (drop 81 bs)) \<rparr>"

definition sizeof_hotp_key_t :: nat where
  "sizeof_hotp_key_t = 89"

text \<open>\<^verbatim>\<open>snprintf(key, 64, "hotp-key-%i", slot_num)\<close>.\<close>

definition show_int :: "int \<Rightarrow> string" where
  "show_int i = (if i < 0 then CHR ''-'' # decimal (nat (- i)) else decimal (nat i))"

definition key_name :: "int \<Rightarrow> string" where
  "key_name slot_num = ''hotp-key-'' @ show_int slot_num"

text \<open>
  Modelled from the spec: \<^verbatim>\<open>kv_get_sync\<close> of the backing key-value store, whose code
  is not among the sources. \<open>get(key) -> (value, found)\<close>: a read gives the stored value
  and its length, or a return code that is not success when the driver fails or nothing
  is stored under the key.
\<close>

definition kv_get_sync :: "env \<Rightarrow> string \<Rightarrow> app_state \<Rightarrow> int \<times> byte list \<times> nat" where
  "kv_get_sync e k s =
     (if kv_get_error e k \<noteq> 0 then (kv_get_error e k, [], 0)
      else case kv_store s k of
             None \<Rightarrow> (- 1, [], 0)
           | Some v \<Rightarrow> (0, v, length v))"

text \<open>
  Modelled from the spec: \<^verbatim>\<open>kv_set_sync\<close> of the backing key-value store.
  \<open>set(key, value) -> Result\<close>: a write that succeeds replaces the value under the key;
  one that fails leaves the store as it was. Each call is an event.
\<close>

definition kv_set_sync :: "env \<Rightarrow> string \<Rightarrow> byte list \<Rightarrow> app_state \<Rightarrow> int \<times> app_state" where
  "kv_set_sync e k v s =
     (let rc = kv_set_error e k
      in (rc, s\<lparr>kv_store := (if rc = 0 then (kv_store s)(k \<mapsto> v) else kv_store s),
                trace := trace s @ [KvSetSync k v rc]\<rparr>))"

text \<open>\<^verbatim>\<open>save_key\<close>: a failed write is reported on the console and nothing else.\<close>

definition save_key :: "env \<Rightarrow> int \<Rightarrow> app_state \<Rightarrow> app_state outcome" where
  "save_key e slot_num s =
     (if \<not> in_bounds slot_num then OutOfBounds slot_num
      else let (ret, s1) = kv_set_sync e (key_name slot_num) (serialize (keys s ! nat slot_num)) s
           in if ret \<noteq> 0
              then Returns (emit [Printf (MsgErrorRc ret), Printf MsgCouldNotStoreKey] s1)
              else Returns s1)"

section \<open>HOTP engine: the pure steps of \<^verbatim>\<open>get_next_code\<close>\<close>

text \<open>
  The loop that fills \<^verbatim>\<open>moving_factor\<close>: byte \<open>i\<close> is the counter shifted right by
  \<open>(sizeof(counter_t) - i - 1) * 8\<close> bits and masked with \<^verbatim>\<open>0xFF\<close>.
\<close>

definition moving_factor :: "counter_t \<Rightarrow> byte list" where
  "moving_factor c = map (\<lambda>i. ucast (drop_bit ((8 - i - 1) * 8) c AND 0xFF)) [0..<8]"

text \<open>
  The output value \<^verbatim>\<open>S\<close> before the modulus: the offset is the low nibble of the last
  byte of the 32-byte HMAC buffer, and four bytes from there are combined, the first one
  masked with \<^verbatim>\<open>0x7f\<close>. The bytes are promoted to 32 bits before the shifts.
\<close>

definition dynamic_truncate :: "byte list \<Rightarrow> 32 word" where
  "dynamic_truncate hmac_output_buf =
     (let offset = unat ((hmac_output_buf ! (32 - 1)) AND 0x0f)
      in push_bit 24 (ucast (hmac_output_buf ! offset) AND 0x7f)
         OR push_bit 16 (ucast (hmac_output_buf ! (offset + 1)) AND 0xff)
         OR push_bit 8 (ucast (hmac_output_buf ! (offset + 2)) AND 0xff)
         OR (ucast (hmac_output_buf ! (offset + 3)) AND 0xff))"

text \<open>
  \<^verbatim>\<open>S %= (uint32_t) pow(10, key_digits[slot_num])\<close>. The powers of ten used here
  (at most \<open>10 ^ 8\<close>) are exact as doubles, so the modulus is the integer power.
\<close>

definition hotp_value :: "nat \<Rightarrow> byte list \<Rightarrow> 32 word" where
  "hotp_value slot hmac_output_buf =
     dynamic_truncate hmac_output_buf mod (10 ^ nat (key_digits ! slot))"

text \<open>
  \<^verbatim>\<open>snprintf(buf, bufsz, "%.*ld", precision, value)\<close>: the precision is the least
  number of digits, zeros are added on the left, and a negative value gets its sign in
  front. The result is the text left in the buffer (at most \<open>bufsz - 1\<close> characters
  before the terminator) and the returned length, which is that of the whole rendering.
\<close>

definition snprintf_prec_ld :: "nat \<Rightarrow> nat \<Rightarrow> int \<Rightarrow> string \<times> int" where
  "snprintf_prec_ld bufsz precision v =
     (let ds = decimal (nat \<bar>v\<bar>);
          body = replicate (precision - length ds) CHR ''0'' @ ds;
          full = (if v < 0 then CHR ''-'' # body else body)
      in (take (bufsz - 1) full, int (length full)))"

text \<open>
  The formatting of the code: \<^verbatim>\<open>hotp_format_buffer\<close> and the clamped length
  \<^verbatim>\<open>len\<close>. The 32-bit \<^verbatim>\<open>S\<close> is read by \<^verbatim>\<open>%ld\<close> as a \<^verbatim>\<open>long\<close>, which has
  32 bits on the boards that run the application. Both output paths send the first
  \<^verbatim>\<open>len\<close> characters of the buffer (the console path after writing the terminator at
  \<^verbatim>\<open>len\<close>): that is \<open>hotp_code\<close>.
\<close>

definition hotp_format :: "nat \<Rightarrow> 32 word \<Rightarrow> string \<times> int" where
  "hotp_format slot S =
     (let (hotp_format_buffer, len0) = snprintf_prec_ld 16 (nat (key_digits ! slot)) (sint S)
      in (hotp_format_buffer, if len0 < 0 then 0 else if len0 > 16 then 16 else len0))"

definition hotp_code :: "nat \<Rightarrow> byte list \<Rightarrow> string" where
  "hotp_code slot hmac_output_buf =
     (let (hotp_format_buffer, len1) = hotp_format slot (hotp_value slot hmac_output_buf)
      in take (nat len1) hotp_format_buffer)"

section \<open>HMAC handling\<close>

text \<open>
  \<^verbatim>\<open>hmac\<close>: each driver call may fail, and the \<^verbatim>\<open>goto\<close> chain then returns that code.
  The calls that undo the buffer registrations discard their results and change nothing
  the application sees. Only a failure of \<^verbatim>\<open>hmac_run\<close> is printed. After a run that
  started, \<^verbatim>\<open>yield_for\<close> waits for the completion upcall; the digest is then in the
  output buffer. The result is the return code, the output buffer and the events.
\<close>

definition hmac ::
  "env \<Rightarrow> byte list \<Rightarrow> int \<Rightarrow> byte list \<Rightarrow> byte list \<Rightarrow> (int \<times> byte list \<times> event list) outcome" where
  "hmac e k key_len data output_buffer =
     (if hmac_set_callback e < 0 then Returns (hmac_set_callback e, output_buffer, [])
      else if hmac_set_key_buffer e < 0 then Returns (hmac_set_key_buffer e, output_buffer, [])
      else if hmac_set_dest_buffer e < 0 then Returns (hmac_set_dest_buffer e, output_buffer, [])
      else if hmac_set_data_buffer e < 0 then Returns (hmac_set_data_buffer e, output_buffer, [])
      else if hmac_set_algorithm e < 0 then Returns (hmac_set_algorithm e, output_buffer, [])
      else if hmac_run e < 0
        then Returns (hmac_run e, output_buffer, [Printf (MsgHmacFailure (hmac_run e))])
      else if hmac_upcall_arrives e then Returns (hmac_run e, hmac_sha256 e k key_len data, [])
      else Blocks)"

section \<open>HOTP actions\<close>

definition program_secret :: "env \<Rightarrow> int \<Rightarrow> string \<Rightarrow> app_state \<Rightarrow> app_state outcome" where
  "program_secret e slot_num secret s =
     (let (ret, plaintext_key) = base32_decode e secret
      in if ret < 0 then
           (if \<not> in_bounds slot_num then OutOfBounds slot_num
            else Returns (upd_key slot_num (\<lambda>k. k\<lparr>len := 0\<rparr>) (emit [Printf MsgCannotDecode] s)))
         else if \<not> in_bounds slot_num then OutOfBounds slot_num
         else
           let k0 = keys s ! nat slot_num;
               (ret2, key', iv') = encrypt e plaintext_key ret (key k0) (iv k0);
               s1 = upd_key slot_num (\<lambda>k. k\<lparr>key := key', iv := iv'\<rparr>) s
           in if ret2 < 0 then
                Returns (upd_key slot_num (\<lambda>k. k\<lparr>len := 0\<rparr>)
                          (emit [Printf (MsgErrorRc ret2), Printf MsgCannotEncrypt] s1))
              else
                bind_outcome
                  (save_key e slot_num
                     (upd_key slot_num (\<lambda>k. k\<lparr>len := word_of_int ret2, counter := 0\<rparr>) s1))
                  (\<lambda>s2. Returns (emit [Printf (MsgProgrammed secret slot_num)] s2)))"

definition program_default_secret :: "env \<Rightarrow> app_state \<Rightarrow> app_state outcome" where
  "program_default_secret e s =
     bind_outcome (program_secret e 0 ''test'' (emit [LedOn 0] s))
       (\<lambda>s1. Returns (emit [LedOff 0] s1))"

text \<open>
  One round of the loop of \<^verbatim>\<open>initialize_keys\<close>, for slot \<open>i\<close>, and the loop over the
  slots from \<open>i\<close> on.
\<close>

definition initialize_key :: "env \<Rightarrow> nat \<Rightarrow> app_state \<Rightarrow> app_state outcome" where
  "initialize_key e i s =
     (let (ret, val, value_len) = kv_get_sync e (key_name (int i)) s
      in if ret \<noteq> 0 \<or> value_len \<noteq> sizeof_hotp_key_t then
           bind_outcome (save_key e (int i) (upd_key (int i) (\<lambda>k. k\<lparr>len := 0\<rparr>) s))
             (\<lambda>s1. if i = 0 then program_default_secret e s1 else Returns s1)
         else Returns (upd_key (int i) (\<lambda>k. deserialize val) s))"

function initialize_keys_from :: "env \<Rightarrow> nat \<Rightarrow> app_state \<Rightarrow> app_state outcome" where
  "initialize_keys_from e i s =
     (if int i < NUM_KEYS
      then bind_outcome (initialize_key e i s) (\<lambda>s1. initialize_keys_from e (i + 1) s1)
      else Returns s)"
  by pat_completeness auto
termination
  by (relation "measure (\<lambda>(e, i, s). 4 - i)") (auto simp: NUM_KEYS_def)

definition initialize_keys :: "env \<Rightarrow> app_state \<Rightarrow> app_state outcome" where
  "initialize_keys e s = initialize_keys_from e 0 s"

text \<open>\<^verbatim>\<open>isalnum\<close> in the C locale.\<close>

definition isalnum :: "char \<Rightarrow> bool" where
  "isalnum c \<longleftrightarrow>
     (let n = (of_char c :: nat)
      in (48 \<le> n \<and> n \<le> 57) \<or> (65 \<le> n \<and> n \<le> 90) \<or> (97 \<le> n \<and> n \<le> 122))"

text \<open>
  The input loop of \<^verbatim>\<open>program_new_secret\<close>: \<^verbatim>\<open>getch\<close> takes the next character of
  the console input, or waits for ever when there is none. The result is \<^verbatim>\<open>newkey\<close>,
  the input left and the echoes.
\<close>

fun read_newkey :: "string \<Rightarrow> char list \<Rightarrow> event list \<Rightarrow> (string \<times> char list \<times> event list) option" where
  "read_newkey newkey [] evs = (if length newkey < 127 then None else Some (newkey, [], evs))"
| "read_newkey newkey (c # cs) evs =
     (if \<not> length newkey < 127 then Some (newkey, c # cs, evs)
      else if c = CHR 0x0A \<or> c = CHR 0x0D then Some (newkey, cs, evs)
      else if isalnum c then read_newkey (newkey @ [c]) cs (evs @ [Putnstr [c]])
      else read_newkey newkey cs evs)"

definition program_new_secret :: "env \<Rightarrow> int \<Rightarrow> app_state \<Rightarrow> app_state outcome" where
  "program_new_secret e slot_num s =
     (let s1 = emit [LedOn slot_num, Printf (MsgProgramPrompt slot_num), Printf MsgCancelHint] s
      in case read_newkey [] (console_input s1) [] of
           None \<Rightarrow> Blocks
         | Some (newkey, rest, echoes) \<Rightarrow>
             let s2 = emit (echoes @ [Putnstr [CHR 0x0D, CHR 0x0A]]) (s1\<lparr>console_input := rest\<rparr>)
             in if newkey = [] then Returns (emit [Printf MsgAborted, LedOff slot_num] s2)
                else bind_outcome (program_secret e slot_num newkey s2)
                       (\<lambda>s3. Returns (emit [LedOff slot_num] s3)))"

text \<open>
  \<^verbatim>\<open>get_next_code\<close>. The return values of \<^verbatim>\<open>decrypt\<close> and \<^verbatim>\<open>hmac\<close> are not
  examined by the source.
\<close>

definition get_next_code :: "env \<Rightarrow> int \<Rightarrow> app_state \<Rightarrow> app_state outcome" where
  "get_next_code e slot_num s =
     (let s1 = emit [LedOn slot_num] s
      in if \<not> in_bounds slot_num then OutOfBounds slot_num
         else
           let k0 = keys s1 ! nat slot_num;
               (keylen, plain) = decrypt e (iv k0) (key k0) (len k0)
           in bind_outcome (hmac e plain keylen (moving_factor (counter k0)) (uninit_hmac_output_buf e))
                (\<lambda>(ret, hmac_output_buf, evs).
                   bind_outcome
                     (save_key e slot_num
                        (upd_key slot_num (\<lambda>k. k\<lparr>counter := counter k + 1\<rparr>) (emit evs s1)))
                     (\<lambda>s3.
                        let code = hotp_code (nat slot_num) hmac_output_buf;
                            s4 = (if usbkeyboardhid_exists e then
                                    let r = usb_keyboard_hid_send_string_sync e code
                                    in emit [UsbKeyboardSend code r,
                                             if r < 0 then Printf (MsgUsbError r)
                                             else Printf (MsgCounterTyped
                                                    (ucast (counter (keys s3 ! nat slot_num)) - 1)
                                                    (fst (hotp_format (nat slot_num)
                                                            (hotp_value (nat slot_num) hmac_output_buf))))]
                                         s3
                                  else emit [Printf (MsgCode code)] s3)
                        in Returns (emit [LedOff slot_num] s4))))"

section \<open>Button handling and the main loop\<close>

text \<open>
  \<^verbatim>\<open>button_upcall\<close> on the global \<^verbatim>\<open>pressed_btn_num\<close> and the flag it is given, and
  \<^verbatim>\<open>yield_for\<close> on that flag: every \<^verbatim>\<open>yield\<close> delivers the next upcall \<open>(num, val)\<close>
  of the button driver; with no upcall left the wait never ends.
\<close>

definition button_upcall :: "int \<Rightarrow> int \<Rightarrow> app_state \<times> bool \<Rightarrow> app_state \<times> bool" where
  "button_upcall num val sf =
     (if val = 1 then ((fst sf)\<lparr>pressed_btn_num := num\<rparr>, True) else sf)"

fun yield_for_button :: "(int \<times> int) list \<Rightarrow> app_state \<times> bool \<Rightarrow> app_state option" where
  "yield_for_button ups (s, True) = Some s"
| "yield_for_button [] (s, False) = None"
| "yield_for_button ((num, val) # ups) (s, False) =
     yield_for_button ups (button_upcall num val (s, False))"

definition keys_at :: "app_state \<Rightarrow> int \<Rightarrow> hotp_key outcome" where
  "keys_at s i = (if in_bounds i then Returns (keys s ! nat i) else OutOfBounds i)"

text \<open>
  One round of the loop of \<^verbatim>\<open>main\<close>: the upcalls delivered while it waits for a press,
  and \<open>new_val\<close>, the level \<^verbatim>\<open>button_read\<close> samples after the 500 ms delay. The
  condition \<^verbatim>\<open>btn_num < NUM_KEYS && keys[btn_num].len > 0\<close> reads the array only when
  its first half holds.
\<close>

definition main_loop_body :: "env \<Rightarrow> (int \<times> int) list \<Rightarrow> int \<Rightarrow> app_state \<Rightarrow> app_state outcome" where
  "main_loop_body e upcalls new_val s =
     (case yield_for_button upcalls (s, False) of
        None \<Rightarrow> Blocks
      | Some s1 \<Rightarrow>
          let btn_num = pressed_btn_num s1
          in if new_val \<noteq> 0 then program_new_secret e btn_num s1
             else
               bind_outcome
                 (if btn_num < NUM_KEYS
                  then bind_outcome (keys_at s1 btn_num) (\<lambda>k. Returns (0 < len k))
                  else Returns False)
                 (\<lambda>configured.
                    if configured then get_next_code e btn_num s1
                    else bind_outcome (keys_at s1 btn_num)
                           (\<lambda>k. if len k = 0
                                 then Returns (emit [Printf (MsgNotConfigured btn_num)] s1)
                                 else Returns s1)))"

section \<open>The HOTP steps as the specification words them\<close>

text \<open>The counter as 8 bytes, most significant byte first.\<close>

definition counter_bytes_spec :: "counter_t \<Rightarrow> byte list" where
  "counter_bytes_spec c = map (\<lambda>i. of_nat ((unat c div 256 ^ (7 - i)) mod 256)) [0..<8]"

text \<open>
  The truncation on the byte values of a digest: the offset is the last byte modulo 16,
  the first byte loses its top bit, and the four bytes are read big-endian.
\<close>

definition truncated_spec :: "nat list \<Rightarrow> nat" where
  "truncated_spec digest =
     (let offset = (digest ! 31) mod 16
      in (digest ! offset mod 128) * 2 ^ 24 + (digest ! (offset + 1)) * 2 ^ 16
         + (digest ! (offset + 2)) * 2 ^ 8 + digest ! (offset + 3))"

definition code_spec :: "nat \<Rightarrow> nat list \<Rightarrow> nat" where
  "code_spec d digest = truncated_spec digest mod 10 ^ d"

text \<open>The number a string of decimal digits denotes.\<close>

definition decimal_value :: "string \<Rightarrow> nat" where
  "decimal_value cs = foldl (\<lambda>a c. 10 * a + (of_char c - of_char CHR ''0'')) 0 cs"

text \<open>A character is one of the decimal digits.\<close>

definition is_digit :: "char \<Rightarrow> bool" where
  "is_digit c \<longleftrightarrow> 48 \<le> (of_char c :: nat) \<and> (of_char c :: nat) \<le> 57"

section \<open>Observations on the events\<close>

text \<open>
  The code an event sends to an output sink, if it is one: the USB keyboard or, as the
  fallback, the \<^verbatim>\<open>CODE:\<close> line on the console.
\<close>

fun code_of :: "event \<Rightarrow> string option" where
  "code_of (UsbKeyboardSend c r) = Some c"
| "code_of (Printf (MsgCode c)) = Some c"
| "code_of ev = None"

fun emitted_codes :: "event list \<Rightarrow> string list" where
  "emitted_codes [] = []"
| "emitted_codes (ev # evs) =
     (case code_of ev of None \<Rightarrow> emitted_codes evs | Some c \<Rightarrow> c # emitted_codes evs)"





text \<open>The events a call adds to those of the state it started from.\<close>

definition new_events :: "app_state \<Rightarrow> app_state \<Rightarrow> event list" where
  "new_events s s' = drop (length (trace s)) (trace s')"

text \<open>
  The read of slot \<open>i\<close> at boot does not give a record: the driver reports an error,
  nothing is stored under the key, or what is stored has not the size of the struct.
\<close>

definition unreadable :: "env \<Rightarrow> app_state \<Rightarrow> nat \<Rightarrow> bool" where
  "unreadable e s i \<longleftrightarrow>
     (case kv_get_sync e (key_name (int i)) s of
        (ret, val, value_len) \<Rightarrow> ret \<noteq> 0 \<or> value_len \<noteq> sizeof_hotp_key_t)"

section \<open>Concrete inputs\<close>

text \<open>
  The state at program start: C zero-initialises the globals; nothing is stored and
  nothing has been typed.
\<close>

definition zero_key :: hotp_key where
  "zero_key = \<lparr> len = 0, iv = replicate 16 0, key = replicate 64 0, counter = 0 \<rparr>"

definition boot_state :: app_state where
  "boot_state = \<lparr> keys = replicate 4 zero_key, pressed_btn_num = 0, kv_store = Map.empty,
                   console_input = [], trace = [] \<rparr>"

text \<open>
  A state in which slot 0 is configured: its record has a key of four bytes and the
  counter 41. Nothing is stored yet and there are no events.
\<close>

definition configured_state :: app_state where
  "configured_state =
     boot_state\<lparr>keys := [zero_key\<lparr>len := 4, counter := 41\<rparr>, zero_key, zero_key, zero_key]\<rparr>"

text \<open>A 32-byte digest whose truncation is 1234: offset 0, then the bytes 00 00 04 D2.\<close>

definition digest_1234 :: "byte list" where
  "digest_1234 = [0, 0, 4, 210] @ replicate 28 0"

text \<open>
  Collaborators for evaluating the application at concrete inputs: every call succeeds,
  the decoder gives the characters of the secret, the cipher copies its input, the HMAC
  driver gives \<open>digest_1234\<close>, and there is no USB keyboard.
\<close>

definition test_env :: env where
  "test_env = \<lparr> kv_get_error = (\<lambda>k. 0), kv_set_error = (\<lambda>k. 0),
     base32_decode = (\<lambda>secret. (int (length secret), map of_char secret)),
     encrypt = (\<lambda>plain n old_key old_iv. (n, plain @ drop (length plain) old_key, old_iv)),
     decrypt = (\<lambda>i k l. (uint l, k)),
     hmac_set_callback = 0, hmac_set_key_buffer = 0, hmac_set_dest_buffer = 0,
     hmac_set_data_buffer = 0, hmac_set_algorithm = 0, hmac_run = 0,
     hmac_upcall_arrives = True,
     hmac_sha256 = (\<lambda>k n d. digest_1234),
     uninit_hmac_output_buf = replicate 32 0,
     usbkeyboardhid_exists = False,
     usb_keyboard_hid_send_string_sync = (\<lambda>c. 0) \<rparr>"

section \<open>Bytes and bits\<close>

lemma p256: "(256::nat) ^ k = 2 ^ (8 * k)"
  by (simp add: power_mult)

lemma mf_byte:
  "(ucast (drop_bit (8 * k) (c :: 64 word) AND 0xFF) :: 8 word) = of_nat ((unat c div 256 ^ k) mod 256)"
proof -
  have ff_mask: "(0xFF :: 64 word) = mask 8"
    by (simp add: mask_eq_exp_minus_1)
  have "(256::nat) = 2 ^ 8" by simp
  then have "(unat c div 256 ^ k) mod 256 = take_bit 8 (drop_bit (8 * k) (unat c))"
    by (simp add: p256 take_bit_eq_mod drop_bit_eq_div)
  then show ?thesis
    apply (simp only: ff_mask)
    apply (rule bit_word_eqI)
    apply (simp add: bit_simps flip: take_bit_eq_mask)
    done
qed

lemma or_push_add:
  fixes a b :: nat
  assumes "b < 2 ^ n"
  shows "push_bit n a OR b = a * 2 ^ n + b"
proof -
  have "push_bit n a + b = push_bit n a OR b"
  proof (rule disjunctive_add)
    fix m
    show "\<not> bit (push_bit n a) m \<or> \<not> bit b m"
    proof (cases "m < n")
      case True
      then show ?thesis by (simp add: bit_push_bit_iff)
    next
      case False
      then have "(2::nat) ^ n \<le> 2 ^ m" by simp
      with assms have "b < 2 ^ m" by linarith
      then show ?thesis by (simp add: bit_iff_odd)
    qed
  qed
  then show ?thesis by (simp add: push_bit_eq_mult)
qed

lemma unat_trunc4:
  fixes b0 b1 b2 b3 :: "8 word"
  shows "unat (push_bit 24 (ucast b0 AND 0x7f) OR push_bit 16 (ucast b1 AND 0xff) OR push_bit 8 (ucast b2 AND 0xff) OR (ucast b3 AND 0xff) :: 32 word)
     = (unat b0 mod 128) * 2 ^ 24 + unat b1 * 2 ^ 16 + unat b2 * 2 ^ 8 + unat b3"
proof -
  have m7: "(0x7f :: nat) = mask 7" and m8: "(0xff :: nat) = mask 8"
    by (simp_all add: mask_eq_exp_minus_1)
  have l0: "unat b0 mod 128 < 128" by simp
  have l1: "unat b1 < 256" and l2: "unat b2 < 256" and l3: "unat b3 < 256"
    using unsigned_less [of b1, where ?'a = nat] unsigned_less [of b2, where ?'a = nat] unsigned_less [of b3, where ?'a = nat] by simp_all
  have lt: "unat b < 256" for b :: "8 word"
    using unsigned_less [of b, where ?'a = nat] by simp
  have u: "unat (ucast b :: 32 word) = unat b" for b :: "8 word"
    using lt [of b] by (simp add: unsigned_ucast_eq take_bit_nat_eq_self)
  have c7: "unat (0x7f :: 32 word) = mask 7" and c8: "unat (0xff :: 32 word) = mask 8"
    by (simp_all add: mask_eq_exp_minus_1)
  have a0: "unat (ucast b0 AND 0x7f :: 32 word) = unat b0 mod 128"
    by (simp only: unsigned_and_eq u c7) (simp add: take_bit_eq_mod flip: take_bit_eq_mask)
  have a1: "unat (ucast b AND 0xff :: 32 word) = unat b" for b :: "8 word"
    using lt [of b]
    by (simp only: unsigned_and_eq u c8) (simp add: take_bit_eq_mod flip: take_bit_eq_mask)
  have s1: "push_bit 8 (unat b2) OR unat b3 = unat b2 * 2 ^ 8 + unat b3"
    using l3 by (simp add: or_push_add)
  have s2: "push_bit 16 (unat b1) OR (unat b2 * 2 ^ 8 + unat b3)
              = unat b1 * 2 ^ 16 + (unat b2 * 2 ^ 8 + unat b3)"
    using l2 l3 by (intro or_push_add) simp
  have s3: "push_bit 24 (unat b0 mod 128) OR (unat b1 * 2 ^ 16 + (unat b2 * 2 ^ 8 + unat b3))
              = (unat b0 mod 128) * 2 ^ 24 + (unat b1 * 2 ^ 16 + (unat b2 * 2 ^ 8 + unat b3))"
    using l1 l2 l3 by (intro or_push_add) simp
  have t0: "take_bit 32 (push_bit 24 (unat b0 mod 128)) = push_bit 24 (unat b0 mod 128)"
    using l0 by (intro take_bit_nat_eq_self) (simp add: push_bit_eq_mult)
  have t1: "take_bit 32 (push_bit 16 (unat b1)) = push_bit 16 (unat b1)"
    using l1 by (intro take_bit_nat_eq_self) (simp add: push_bit_eq_mult)
  have t2: "take_bit 32 (push_bit 8 (unat b2)) = push_bit 8 (unat b2)"
    using l2 by (intro take_bit_nat_eq_self) (simp add: push_bit_eq_mult)
  have e0: "unat (push_bit 24 (ucast b0 AND 0x7f :: 32 word)) = push_bit 24 (unat b0 mod 128)"
    by (simp only: unsigned_push_bit_eq a0) (use t0 in simp)
  have e1: "unat (push_bit 16 (ucast b1 AND 0xff :: 32 word)) = push_bit 16 (unat b1)"
    by (simp only: unsigned_push_bit_eq a1) (use t1 in simp)
  have e2: "unat (push_bit 8 (ucast b2 AND 0xff :: 32 word)) = push_bit 8 (unat b2)"
    by (simp only: unsigned_push_bit_eq a1) (use t2 in simp)
  have "unat (push_bit 24 (ucast b0 AND 0x7f) OR push_bit 16 (ucast b1 AND 0xff)
               OR push_bit 8 (ucast b2 AND 0xff) OR (ucast b3 AND 0xff) :: 32 word)
          = push_bit 24 (unat b0 mod 128) OR (push_bit 16 (unat b1) OR (push_bit 8 (unat b2) OR unat b3))"
    by (simp only: unsigned_or_eq e0 e1 e2 a1 or.assoc)
  also have "\<dots> = (unat b0 mod 128) * 2 ^ 24 + (unat b1 * 2 ^ 16 + (unat b2 * 2 ^ 8 + unat b3))"
    by (simp only: s1 s2 s3)
  finally show ?thesis by simp
qed

section \<open>The HOTP steps refine their specification\<close>

lemma moving_factor_is_big_endian: "moving_factor c = counter_bytes_spec c"
  unfolding moving_factor_def counter_bytes_spec_def
proof (rule map_cong [OF refl])
  fix i :: nat
  assume "i \<in> set [0..<8]"
  then have "(8 - i - 1) * 8 = 8 * (7 - i)" by auto
  then show "(ucast (drop_bit ((8 - i - 1) * 8) c AND 0xFF) :: 8 word) = of_nat ((unat c div 256 ^ (7 - i)) mod 256)"
    by (simp only: mf_byte)
qed

lemma unat_low_nibble: "unat ((b :: 8 word) AND 0x0f) = unat b mod 16"
proof -
  have c: "unat (0x0f :: 8 word) = mask 4" by (simp add: mask_eq_exp_minus_1)
  have "unat b AND mask 4 = unat b mod 16"
    by (simp add: take_bit_eq_mod flip: take_bit_eq_mask)
  then show ?thesis
    by (simp only: unsigned_and_eq c)
qed

lemma dynamic_truncate_spec:
  assumes "length buf = 32"
  shows "unat (dynamic_truncate buf) = truncated_spec (map unat buf)"
proof -
  define off where "off = unat (buf ! 31) mod 16"
  have "off < 16" by (simp add: off_def)
  with assms have "off < length buf" "off + 1 < length buf" "off + 2 < length buf" "off + 3 < length buf" "31 < length buf"
    by simp_all
  then show ?thesis
    unfolding dynamic_truncate_def truncated_spec_def Let_def
    by (simp only: unat_low_nibble unat_trunc4 nth_map off_def [symmetric]) (simp add: off_def)
qed

lemma key_digits_cases:
  assumes "slot < 4"
  shows "nat (key_digits ! slot) \<in> {6, 7, 8}"
proof -
  from assms have "slot = 0 \<or> slot = 1 \<or> slot = 2 \<or> slot = 3" by auto
  then show ?thesis by (auto simp: key_digits_def)
qed

lemma hotp_value_spec:
  assumes "slot < 4" and "length buf = 32"
  shows "unat (hotp_value slot buf) = code_spec (nat (key_digits ! slot)) (map unat buf)"
proof -
  from key_digits_cases [OF assms(1)]
  have "unat ((10 :: 32 word) ^ nat (key_digits ! slot)) = 10 ^ nat (key_digits ! slot)"
    by auto
  then show ?thesis
    by (simp add: hotp_value_def code_spec_def unat_mod dynamic_truncate_spec [OF assms(2)])
qed

section \<open>Decimal rendering\<close>

declare decimal.simps [simp del]

lemma of_char_digit_char: "d < 10 \<Longrightarrow> (of_char (digit_char d) :: nat) = 48 + d"
  by (simp add: digit_char_def)

lemma decimal_value_snoc:
  "decimal_value (cs @ [c]) = 10 * decimal_value cs + (of_char c - of_char CHR ''0'')"
  by (simp add: decimal_value_def)

lemma decimal_value_decimal: "decimal_value (decimal n) = n"
proof (induction n rule: decimal.induct)
  case (1 n)
  show ?case
  proof (cases "n < 10")
    case True
    then show ?thesis
      by (subst decimal.simps) (simp add: decimal_value_def of_char_digit_char)
  next
    case False
    with 1 have "decimal_value (decimal (n div 10)) = n div 10" by simp
    with False show ?thesis
      by (subst decimal.simps) (simp add: decimal_value_snoc of_char_digit_char)
  qed
qed

lemma decimal_value_zeros: "decimal_value (replicate k CHR ''0'' @ cs) = decimal_value cs"
proof -
  have "foldl (\<lambda>a c. 10 * a + (of_char c - of_char CHR ''0'')) (0::nat) (replicate k CHR ''0'') = 0"
    by (induction k) simp_all
  then show ?thesis by (simp add: decimal_value_def)
qed

lemma decimal_digits: "\<forall>c \<in> set (decimal n). is_digit c"
proof (induction n rule: decimal.induct)
  case (1 n)
  show ?case
  proof (cases "n < 10")
    case True
    then show ?thesis
      by (subst decimal.simps) (simp add: is_digit_def of_char_digit_char)
  next
    case False
    with 1 have "\<forall>c \<in> set (decimal (n div 10)). is_digit c" by simp
    moreover have "is_digit (digit_char (n mod 10))"
      by (simp add: is_digit_def of_char_digit_char)
    ultimately show ?thesis using False
      by (subst decimal.simps) simp
  qed
qed

lemma length_decimal_le: "n < 10 ^ d \<Longrightarrow> 0 < d \<Longrightarrow> length (decimal n) \<le> d"
proof (induction n arbitrary: d rule: decimal.induct)
  case (1 n)
  show ?case
  proof (cases "n < 10")
    case True
    with 1(3) show ?thesis
      by (subst decimal.simps) simp
  next
    case False
    from 1(3) obtain d' where d: "d = Suc d'" by (cases d) auto
    with 1(2) have lt: "n div 10 < 10 ^ d'"
      by (simp add: less_mult_imp_div_less mult.commute)
    from False lt have "0 < d'" by (cases d') auto
    from 1(1) [OF False lt this] have "length (decimal (n div 10)) \<le> d'" .
    with False d show ?thesis
      by (subst decimal.simps) simp
  qed
qed


lemma sint_small:
  assumes "unat (w :: 32 word) < 2 ^ 31"
  shows "sint w = int (unat w)"
proof -
  from assms have "int (unat w) < int (2 ^ 31)"
    by (simp only: of_nat_less_iff)
  then have b: "uint w < 2 ^ 31" by simp
  have "- (2 ^ 31) \<le> (0::int)" by simp
  also have "0 \<le> uint w" by simp
  finally have a: "- (2 ^ 31) \<le> uint w" .
  from a b have "signed_take_bit 31 (uint w) = uint w"
    by (rule signed_take_bit_int_eq_self)
  then show ?thesis
    by (simp add: sint_uint)
qed

lemma hotp_value_less:
  assumes "slot < 4"
  shows "unat (hotp_value slot buf) < 10 ^ nat (key_digits ! slot)"
proof -
  from key_digits_cases [OF assms]
  have "unat ((10 :: 32 word) ^ nat (key_digits ! slot)) = 10 ^ nat (key_digits ! slot)"
    by auto
  then show ?thesis
    by (simp add: hotp_value_def unat_mod)
qed

lemma hotp_code_padded:
  fixes slot :: nat and buf :: "byte list"
  assumes "slot < 4"
  defines "d \<equiv> nat (key_digits ! slot)"
  defines "v \<equiv> unat (hotp_value slot buf)"
  shows "hotp_code slot buf = replicate (d - length (decimal v)) CHR ''0'' @ decimal v"
    and "length (hotp_code slot buf) = d"
    and "fst (hotp_format slot (hotp_value slot buf)) = hotp_code slot buf"
proof -
  from key_digits_cases [OF assms(1)] have d: "0 < d" "d \<le> 8"
    by (auto simp: d_def)
  from hotp_value_less [OF assms(1)] have "v < 10 ^ d"
    by (simp add: v_def d_def)
  with d have le: "length (decimal v) \<le> d"
    by (simp add: length_decimal_le)
  define full where "full = replicate (d - length (decimal v)) CHR ''0'' @ decimal v"
  from le have len: "length full = d" by (simp add: full_def)
  with d have "take 15 full = full" by simp
  have "nat \<bar>int v\<bar> = v" and "\<not> int v < 0" by simp_all
  then have "snprintf_prec_ld 16 d (int v) = (take (16 - 1) full, int (length full))"
    by (simp only: snprintf_prec_ld_def Let_def full_def if_False)
  with len \<open>take 15 full = full\<close> have "snprintf_prec_ld 16 d (int v) = (full, int d)"
    by simp
  moreover from \<open>v < 10 ^ d\<close> d have "v < 2 ^ 31"
    using power_increasing [of d 8 "10::nat"] by simp
  then have "sint (hotp_value slot buf) = int v"
    unfolding v_def by (rule sint_small)
  ultimately have fmt: "hotp_format slot (hotp_value slot buf) = (full, int d)"
    using d by (simp add: hotp_format_def d_def [symmetric])
  with len have code: "hotp_code slot buf = full"
    by (simp add: hotp_code_def)
  from code show "hotp_code slot buf = replicate (d - length (decimal v)) CHR ''0'' @ decimal v"
    by (simp add: full_def)
  from code len show "length (hotp_code slot buf) = d" by simp
  from code fmt show "fst (hotp_format slot (hotp_value slot buf)) = hotp_code slot buf" by simp
qed

section \<open>What one run of \<^verbatim>\<open>get_next_code\<close> does\<close>

lemma hmac_events:
  assumes "hmac e k n d ob = Returns (ret, buf, evs)"
  shows "evs = [] \<or> evs = [Printf (MsgHmacFailure (hmac_run e))]"
  using assms by (auto simp: hmac_def split: if_splits)

lemma get_next_code_returns:
  assumes "in_bounds slot_num" and "nat slot_num < length (keys s)"
    and "k0 = keys s ! nat slot_num"
    and "decrypt e (iv k0) (key k0) (len k0) = (keylen, plain)"
    and "hmac e plain keylen (moving_factor (counter k0)) (uninit_hmac_output_buf e) = Returns (ret, buf, evs)"
    and "k1 = k0\<lparr>counter := counter k0 + 1\<rparr>"
    and "rc = kv_set_error e (key_name slot_num)"
    and "code = hotp_code (nat slot_num) buf"
  shows "\<exists>s'. get_next_code e slot_num s = Returns s'
     \<and> keys s' = (keys s)[nat slot_num := k1]
     \<and> kv_store s' = (if rc = 0 then (kv_store s)(key_name slot_num \<mapsto> serialize k1) else kv_store s)
     \<and> trace s' = trace s @
          (LedOn slot_num # evs @ KvSetSync (key_name slot_num) (serialize k1) rc #
           (if rc \<noteq> 0 then [Printf (MsgErrorRc rc), Printf MsgCouldNotStoreKey] else []) @
           (if usbkeyboardhid_exists e
            then [UsbKeyboardSend code (usb_keyboard_hid_send_string_sync e code),
                  if usb_keyboard_hid_send_string_sync e code < 0
                  then Printf (MsgUsbError (usb_keyboard_hid_send_string_sync e code))
                  else Printf (MsgCounterTyped (ucast (counter k1) - 1)
                         (fst (hotp_format (nat slot_num) (hotp_value (nat slot_num) buf))))]
            else [Printf (MsgCode code)]) @
           [LedOff slot_num])"
  using assms
  by (simp add: get_next_code_def Let_def bind_outcome_def save_key_def kv_set_sync_def emit_def upd_key_def)


lemma emitted_codes_append: "emitted_codes (xs @ ys) = emitted_codes xs @ emitted_codes ys"
  by (induction xs) (simp_all split: option.splits)

lemma hmac_emits_no_code:
  assumes "hmac e k n d ob = Returns (ret, buf, evs)"
  shows "emitted_codes evs = []"
  using hmac_events [OF assms] by auto

lemma get_next_code_emits:
  assumes "in_bounds slot_num" and "nat slot_num < length (keys s)"
    and "k0 = keys s ! nat slot_num"
    and "decrypt e (iv k0) (key k0) (len k0) = (keylen, plain)"
    and "hmac e plain keylen (moving_factor (counter k0)) (uninit_hmac_output_buf e) = Returns (ret, buf, evs)"
  shows "\<exists>s'. get_next_code e slot_num s = Returns s'
           \<and> emitted_codes (new_events s s') = [hotp_code (nat slot_num) buf]"
proof -
  from get_next_code_returns [OF assms refl refl refl]
  obtain s' where r: "get_next_code e slot_num s = Returns s'"
    and t: "new_events s s' = LedOn slot_num # evs @
         KvSetSync (key_name slot_num) (serialize (k0\<lparr>counter := counter k0 + 1\<rparr>)) (kv_set_error e (key_name slot_num)) #
           (if kv_set_error e (key_name slot_num) \<noteq> 0 then [Printf (MsgErrorRc (kv_set_error e (key_name slot_num))), Printf MsgCouldNotStoreKey] else []) @
           (if usbkeyboardhid_exists e
            then [UsbKeyboardSend (hotp_code (nat slot_num) buf) (usb_keyboard_hid_send_string_sync e (hotp_code (nat slot_num) buf)),
                  if usb_keyboard_hid_send_string_sync e (hotp_code (nat slot_num) buf) < 0
                  then Printf (MsgUsbError (usb_keyboard_hid_send_string_sync e (hotp_code (nat slot_num) buf)))
                  else Printf (MsgCounterTyped (ucast (counter (k0\<lparr>counter := counter k0 + 1\<rparr>)) - 1)
                         (fst (hotp_format (nat slot_num) (hotp_value (nat slot_num) buf))))]
            else [Printf (MsgCode (hotp_code (nat slot_num) buf))]) @
           [LedOff slot_num]"
    by (auto simp: new_events_def)
  have "emitted_codes (new_events s s') = [hotp_code (nat slot_num) buf]"
    unfolding t using hmac_emits_no_code [OF assms(5)]
    by (simp add: emitted_codes_append)
  with r show ?thesis by blast
qed







section \<open>Evaluation at the concrete inputs\<close>

lemma test_env_hmac:
  "hmac test_env k n d ob = Returns (0, digest_1234, [])"
  by (simp add: hmac_def test_env_def)

lemma code_spec_digest_1234: "code_spec 6 (map unat digest_1234) = 1234"
  by (simp add: code_spec_def truncated_spec_def digest_1234_def)

lemma truncate_digest_1234: "unat (dynamic_truncate digest_1234) = 1234"
  by (simp add: dynamic_truncate_spec digest_1234_def truncated_spec_def)

lemma decimal_1234: "decimal 1234 = ''1234''"
  by code_simp

lemma replicate_zeros:
  "replicate 2 CHR ''0'' = ''00''"
  "replicate 4 CHR ''0'' = ''0000''"
  by code_simp+

lemma key_name_0: "key_name 0 = ''hotp-key-0''"
  by code_simp

lemma boot_facts:
  "in_bounds 0" "length (keys boot_state) = 4" "nat 0 < length (keys boot_state)"
  "keys boot_state ! 0 = zero_key" "kv_store boot_state = Map.empty" "trace boot_state = []"
  by (simp_all add: in_bounds_def NUM_KEYS_def boot_state_def)

lemma test_env_decrypt_zero_key:
  "decrypt (test_env\<lparr>kv_set_error := f\<rparr>) (iv zero_key) (key zero_key) (len zero_key) = (0, replicate 64 0)"
  "decrypt test_env (iv zero_key) (key zero_key) (len zero_key) = (0, replicate 64 0)"
  by (simp_all add: test_env_def zero_key_def)

lemma test_env_hmac_kv: "hmac (test_env\<lparr>kv_set_error := f\<rparr>) k n d ob = Returns (0, digest_1234, [])"
  by (simp add: hmac_def test_env_def)

lemma hotp_code_0_digest_1234: "hotp_code 0 digest_1234 = ''001234''"
proof -
  have "hotp_code 0 digest_1234 = replicate (6 - length (decimal 1234)) CHR ''0'' @ decimal 1234"
    using hotp_code_padded(1) [of 0 digest_1234]
    by (simp add: key_digits_def hotp_value_def truncate_digest_1234 unat_mod)
  then show ?thesis by (simp add: decimal_1234 replicate_zeros)
qed

lemma hmac_failure_keeps_buffer:
  assumes "hmac e k n d ob = Returns (ret, buf, evs)" and "ret < 0"
  shows "buf = ob"
    and "evs = (if hmac_set_callback e < 0 \<or> hmac_set_key_buffer e < 0 \<or> hmac_set_dest_buffer e < 0
                  \<or> hmac_set_data_buffer e < 0 \<or> hmac_set_algorithm e < 0
                then [] else [Printf (MsgHmacFailure ret)])"
  using assms by (auto simp: hmac_def split: if_splits)

lemma hmac_failure_returns:
  assumes "hmac_set_callback e < 0 \<or> hmac_set_key_buffer e < 0 \<or> hmac_set_dest_buffer e < 0
             \<or> hmac_set_data_buffer e < 0 \<or> hmac_set_algorithm e < 0 \<or> hmac_run e < 0"
  shows "\<exists>ret evs. hmac e k n d ob = Returns (ret, ob, evs) \<and> ret < 0"
  using assms by (auto simp: hmac_def)

lemma hotp_code_0_zeros: "hotp_code 0 (replicate 32 0) = ''000000''"
  by code_simp

lemma hmac_run_failure:
  "hmac (test_env\<lparr>hmac_run := - 1\<rparr>) k n d ob = Returns (- 1, ob, [Printf (MsgHmacFailure (- 1))])"
  by (simp add: hmac_def test_env_def)

lemma test_env_upd_facts:
  "decrypt (test_env\<lparr>hmac_run := r\<rparr>) (iv zero_key) (key zero_key) (len zero_key) = (0, replicate 64 0)"
  "uninit_hmac_output_buf (test_env\<lparr>hmac_run := r\<rparr>) = replicate 32 0"
  "decrypt (test_env\<lparr>decrypt := \<lambda>i k l. (- 1, k)\<rparr>) (iv zero_key) (key zero_key) (len zero_key) = (- 1, replicate 64 0)"
  "hmac (test_env\<lparr>decrypt := f\<rparr>) k n d ob = Returns (0, digest_1234, [])"
  by (simp_all add: test_env_def zero_key_def hmac_def)

section \<open>The main loop\<close>

lemma yield_for_button_press:
  assumes "\<forall>u \<in> set pre. snd u \<noteq> 1"
  shows "yield_for_button (pre @ (b, 1) # post) (s, False) = Some (s\<lparr>pressed_btn_num := b\<rparr>)"
  using assms
proof (induction pre)
  case Nil
  then show ?case by (simp add: button_upcall_def)
next
  case (Cons u pre)
  then show ?case by (cases u) (simp add: button_upcall_def)
qed

section \<open>Waiting with a timeout\<close>

lemma yield_loop_post:
  assumes "\<not> fired st" and "pending_alarms st = 1"
    and "yield_loop ups st = Some (rc, st')"
  shows "(rc = RETURNCODE_SUCCESS \<and> cond st' \<and> \<not> fired st'
          \<or> rc = RETURNCODE_FAIL \<and> \<not> cond st' \<and> fired st')
         \<and> pending_alarms st' = 0"
  using assms
proof (induction ups arbitrary: st)
  case Nil
  then show ?case
    by (auto simp: libtock_alarm_cancel_def RETURNCODE_SUCCESS_def RETURNCODE_FAIL_def split: if_splits)
next
  case (Cons u us)
  show ?case
  proof (cases "cond st")
    case True
    with Cons.prems show ?thesis
      by (auto simp: libtock_alarm_cancel_def RETURNCODE_SUCCESS_def RETURNCODE_FAIL_def)
  next
    case False
    with Cons.prems have run: "yield_loop us (deliver u st) = Some (rc, st')" by simp
    show ?thesis
    proof (cases u)
      case CondUpcall
      with Cons.IH [of "deliver u st"] Cons.prems run show ?thesis by simp
    next
      case AlarmUpcall
      with Cons.prems False have d: "deliver u st = st\<lparr>pending_alarms := 0, fired := True\<rparr>"
        by (simp add: yf_timeout_cb_def)
      with run False have "rc = RETURNCODE_FAIL \<and> st' = st\<lparr>pending_alarms := 0, fired := True\<rparr>"
        by (cases us) auto
      with False show ?thesis by simp
    next
      case OtherUpcall
      with Cons.IH [of "deliver u st"] Cons.prems run show ?thesis by simp
    qed
  qed
qed

lemma yield_loop_returns:
  assumes "cond st \<or> fired st \<or> CondUpcall \<in> set ups \<or> (AlarmUpcall \<in> set ups \<and> 0 < pending_alarms st)"
  shows "yield_loop ups st \<noteq> None"
  using assms
proof (induction ups arbitrary: st)
  case Nil
  then show ?case by auto
next
  case (Cons u us)
  show ?case
  proof (cases "cond st \<or> fired st")
    case True
    then show ?thesis by auto
  next
    case False
    with Cons.prems have "cond (deliver u st) \<or> fired (deliver u st) \<or> CondUpcall \<in> set us
        \<or> (AlarmUpcall \<in> set us \<and> 0 < pending_alarms (deliver u st))"
      by (cases u) (auto simp: yf_timeout_cb_def)
    from Cons.IH [OF this] False show ?thesis by simp
  qed
qed

section \<open>Stored records\<close>

lemma take_bit_split8:
  "take_bit 8 d OR push_bit 8 (take_bit n (drop_bit 8 d)) = take_bit (8 + n) (d :: 64 word)"
proof (rule bit_word_eqI)
  fix m
  assume "m < LENGTH(64)"
  show "bit (take_bit 8 d OR push_bit 8 (take_bit n (drop_bit 8 d))) m = bit (take_bit (8 + n) d) m"
  proof (cases "m < 8")
    case True
    then show ?thesis by (simp add: bit_simps)
  next
    case False
    then have "8 + (m - 8) = m" by simp
    with False \<open>m < LENGTH(64)\<close> show ?thesis by (auto simp: bit_simps)
  qed
qed

lemma ucast_byte_back: "(ucast (ucast (d :: 64 word) :: 8 word) :: 64 word) = take_bit 8 d"
  by (rule bit_word_eqI) (auto simp: bit_simps)

lemma le_bytes_fold:
  "foldr (\<lambda>b acc. ucast b OR push_bit 8 acc)
     (map (\<lambda>i. ucast (drop_bit (8 * i) c) :: 8 word) [k..<k + n]) (0 :: 64 word)
   = take_bit (8 * n) (drop_bit (8 * k) c)"
proof (induction n arbitrary: k)
  case 0
  then show ?case by simp
next
  case (Suc n)
  have "[k..<k + Suc n] = k # [k + 1..<(k + 1) + n]"
    by (simp add: upt_rec)
  moreover have "drop_bit (8 * (k + 1)) c = drop_bit 8 (drop_bit (8 * k) c)"
    by (simp add: drop_bit_drop_bit add.commute)
  ultimately show ?case
    using Suc.IH [of "k + 1"]
    by (simp only: list.map foldr.simps o_apply ucast_byte_back take_bit_split8 mult_Suc_right)
qed

lemma counter_le_roundtrip: "counter_of_le_bytes (counter_le_bytes c) = c"
  using le_bytes_fold [of c 0 8] take_bit_length_eq [of c]
  by (simp add: counter_of_le_bytes_def counter_le_bytes_def)


section \<open>Loading the keys at boot\<close>

declare initialize_keys_from.simps [simp del]

lemma key_names:
  "key_name 0 = ''hotp-key-0''" "key_name 1 = ''hotp-key-1''"
  "key_name 2 = ''hotp-key-2''" "key_name 3 = ''hotp-key-3''"
  by code_simp+

lemma lt4_cases: "(i::nat) < 4 \<Longrightarrow> i = 0 \<or> i = 1 \<or> i = 2 \<or> i = 3"
  by auto

lemma key_name_inj4:
  assumes "i < 4" and "j < 4" and "key_name (int i) = key_name (int j)"
  shows "i = j"
  using lt4_cases [OF assms(1)] lt4_cases [OF assms(2)] assms(3)
  by (auto simp: key_names)

lemma save_key_effect:
  assumes "in_bounds j"
  shows "\<exists>s' evs. save_key e j s = Returns s' \<and> trace s' = trace s @ evs
           \<and> evs = KvSetSync (key_name j) (serialize (keys s ! nat j)) (kv_set_error e (key_name j)) #
                   (if kv_set_error e (key_name j) \<noteq> 0
                    then [Printf (MsgErrorRc (kv_set_error e (key_name j))), Printf MsgCouldNotStoreKey]
                    else [])
           \<and> keys s' = keys s
           \<and> kv_store s' = (if kv_set_error e (key_name j) = 0
                             then (kv_store s)(key_name j \<mapsto> serialize (keys s ! nat j))
                             else kv_store s)"
  using assms by (simp add: save_key_def kv_set_sync_def emit_def Let_def)

lemma program_secret_frame:
  assumes "in_bounds j" and "nat j < length (keys s)"
  shows "\<exists>s' evs. program_secret e j secret s = Returns s' \<and> trace s' = trace s @ evs
           \<and> (\<forall>i. LedOn i \<notin> set evs)
           \<and> length (keys s') = length (keys s)
           \<and> (\<forall>i. i \<noteq> nat j \<longrightarrow> keys s' ! i = keys s ! i)
           \<and> (\<forall>k. k \<noteq> key_name j \<longrightarrow> kv_store s' k = kv_store s k)"
proof -
  obtain ret plaintext_key where d: "base32_decode e secret = (ret, plaintext_key)"
    by (cases "base32_decode e secret")
  obtain ret2 key' iv' where
    c: "encrypt e plaintext_key ret (key (keys s ! nat j)) (iv (keys s ! nat j)) = (ret2, key', iv')"
    by (cases "encrypt e plaintext_key ret (key (keys s ! nat j)) (iv (keys s ! nat j))")
  show ?thesis
  proof (cases "ret < 0 \<or> ret2 < 0")
    case True
    with assms d c show ?thesis
      by (auto simp: program_secret_def upd_key_def emit_def Let_def)
  next
    case False
    with assms d c show ?thesis
      by (simp add: program_secret_def upd_key_def emit_def Let_def bind_outcome_def
            save_key_def kv_set_sync_def)
  qed
qed


lemma unreadable_cong:
  assumes "kv_store s' (key_name (int i)) = kv_store s (key_name (int i))"
  shows "unreadable e s' i = unreadable e s i"
  using assms by (simp add: unreadable_def kv_get_sync_def)

lemma initialize_key_readable:
  assumes "\<not> unreadable e s i"
  shows "\<exists>v. kv_store s (key_name (int i)) = Some v \<and> length v = sizeof_hotp_key_t
           \<and> initialize_key e i s = Returns (upd_key (int i) (\<lambda>k. deserialize v) s)"
  using assms
  by (auto simp: unreadable_def kv_get_sync_def initialize_key_def split: if_splits option.splits)

lemma initialize_key_unreadable:
  assumes "unreadable e s i"
  shows "initialize_key e i s =
           bind_outcome (save_key e (int i) (upd_key (int i) (\<lambda>k. k\<lparr>len := 0\<rparr>) s))
             (\<lambda>s1. if i = 0 then program_default_secret e s1 else Returns s1)"
  using assms
  by (auto simp: unreadable_def initialize_key_def split: prod.splits)

lemma initialize_key_effect:
  assumes "i < 4" and "length (keys s) = 4"
  shows "\<exists>s' evs. initialize_key e i s = Returns s' \<and> trace s' = trace s @ evs
     \<and> length (keys s') = 4
     \<and> (\<forall>j. j \<noteq> i \<longrightarrow> keys s' ! j = keys s ! j)
     \<and> (\<forall>k. k \<noteq> key_name (int i) \<longrightarrow> kv_store s' k = kv_store s k)
     \<and> (if unreadable e s i then
          (\<exists>rest. evs = KvSetSync (key_name (int i)) (serialize ((keys s ! i)\<lparr>len := 0\<rparr>))
                           (kv_set_error e (key_name (int i))) # rest)
          \<and> (i \<noteq> 0 \<longrightarrow> len (keys s' ! i) = 0 \<and> (\<forall>j. LedOn j \<notin> set evs))
          \<and> (i = 0 \<longrightarrow> LedOn 0 \<in> set evs
                \<and> (\<exists>s1 s2. keys s1 = (keys s)[0 := (keys s ! 0)\<lparr>len := 0\<rparr>]
                      \<and> program_secret e 0 ''test'' s1 = Returns s2 \<and> keys s' = keys s2))
        else evs = [] \<and> kv_store s' = kv_store s
          \<and> (\<exists>v. kv_store s (key_name (int i)) = Some v \<and> length v = sizeof_hotp_key_t
                \<and> keys s' ! i = deserialize v))"
proof (cases "unreadable e s i")
  case False
  from initialize_key_readable [OF False] obtain v where
    v: "kv_store s (key_name (int i)) = Some v" "length v = sizeof_hotp_key_t"
    and r: "initialize_key e i s = Returns (upd_key (int i) (\<lambda>k. deserialize v) s)"
    by blast
  from assms v False show ?thesis
    unfolding r by (simp add: upd_key_def)
next
  case True
  from assms(1) have b: "in_bounds (int i)"
    by (simp add: in_bounds_def NUM_KEYS_def)
  define sA where "sA = upd_key (int i) (\<lambda>k. k\<lparr>len := 0\<rparr>) s"
  from assms have kA: "keys sA = (keys s)[i := (keys s ! i)\<lparr>len := 0\<rparr>]"
    and tA: "trace sA = trace s" and stA: "kv_store sA = kv_store s"
    by (simp_all add: sA_def upd_key_def)
  from save_key_effect [OF b, of e sA] obtain sB evsB where
    sB: "save_key e (int i) sA = Returns sB" and tB: "trace sB = trace sA @ evsB"
    and eB: "evsB = KvSetSync (key_name (int i)) (serialize (keys sA ! nat (int i)))
                       (kv_set_error e (key_name (int i))) #
                   (if kv_set_error e (key_name (int i)) \<noteq> 0
                    then [Printf (MsgErrorRc (kv_set_error e (key_name (int i)))), Printf MsgCouldNotStoreKey]
                    else [])"
    and kB: "keys sB = keys sA"
    and stB: "kv_store sB = (if kv_set_error e (key_name (int i)) = 0
                             then (kv_store sA)(key_name (int i) \<mapsto> serialize (keys sA ! nat (int i)))
                             else kv_store sA)"
    by blast
  from assms kA have kAi: "keys sA ! i = (keys s ! i)\<lparr>len := 0\<rparr>" by simp
  have noled: "\<forall>j. LedOn j \<notin> set evsB" by (simp add: eB)
  show ?thesis
  proof (cases "i = 0")
    case False
    from True False sB have r: "initialize_key e i s = Returns sB"
      by (simp add: initialize_key_unreadable sA_def [symmetric] bind_outcome_def)
    from assms True False noled show ?thesis
      unfolding r by (simp add: tB tA kB kA stB stA eB kAi)
  next
    case z: True
    define s1 where "s1 = emit [LedOn 0] sB"
    from assms z have l1: "nat 0 < length (keys s1)" and k1: "keys s1 = (keys s)[0 := (keys s ! 0)\<lparr>len := 0\<rparr>]"
      by (simp_all add: s1_def emit_def kB kA)
    have b0: "in_bounds 0" by (simp add: in_bounds_def NUM_KEYS_def)
    from program_secret_frame [OF b0 l1, of e "''test''"] obtain s2 evs2 where
      p: "program_secret e 0 ''test'' s1 = Returns s2" and t2: "trace s2 = trace s1 @ evs2"
      and l2: "length (keys s2) = length (keys s1)"
      and f2: "\<forall>j. j \<noteq> nat 0 \<longrightarrow> keys s2 ! j = keys s1 ! j"
      and g2: "\<forall>k. k \<noteq> key_name 0 \<longrightarrow> kv_store s2 k = kv_store s1 k"
      by blast
    from sB z have sB0: "save_key e 0 (upd_key 0 (\<lambda>k. k\<lparr>len := 0\<rparr>) s) = Returns sB"
      by (simp add: sA_def)
    from p have p0: "program_secret e 0 ''test'' (emit [LedOn 0] sB) = Returns s2"
      by (simp add: s1_def)
    from True z have r: "initialize_key e i s = Returns (emit [LedOff 0] s2)"
      by (simp add: initialize_key_unreadable bind_outcome_def program_default_secret_def sB0 p0)
    have t: "trace (emit [LedOff 0] s2) = trace s @ (evsB @ LedOn 0 # evs2 @ [LedOff 0])"
      by (simp add: emit_def t2 s1_def tB tA)
    have st1: "kv_store s1 = kv_store sB" by (simp add: s1_def emit_def)
    have c1: "\<exists>rest. evsB @ LedOn 0 # evs2 @ [LedOff 0] =
                KvSetSync (key_name (int i)) (serialize ((keys s ! i)\<lparr>len := 0\<rparr>))
                           (kv_set_error e (key_name (int i))) # rest"
      by (simp add: eB kAi)
    have c2: "\<exists>s1 s2'. keys s1 = (keys s)[0 := (keys s ! 0)\<lparr>len := 0\<rparr>]
                \<and> program_secret e 0 ''test'' s1 = Returns s2' \<and> keys (emit [LedOff 0] s2) = keys s2'"
      using k1 p by (auto simp: emit_def)
    have c3: "\<forall>j. j \<noteq> i \<longrightarrow> keys (emit [LedOff 0] s2) ! j = keys s ! j"
      using f2 z by (simp add: emit_def k1)
    have c4: "\<forall>k. k \<noteq> key_name (int i) \<longrightarrow> kv_store (emit [LedOff 0] s2) k = kv_store s k"
      using g2 z by (simp add: emit_def st1 stB stA)
    have c5: "length (keys (emit [LedOff 0] s2)) = 4"
      using l2 assms by (simp add: emit_def k1)
    from True z c1 c2 c3 c4 c5 show ?thesis
      unfolding r t by (intro exI [of _ "emit [LedOff 0] s2"] exI [of _ "evsB @ LedOn 0 # evs2 @ [LedOff 0]"]) (simp add: t)
  qed
qed


lemma initialize_keys_from_effect:
  assumes Q: "Q = (\<lambda>s s' j evs.
       if unreadable e s j then
          (\<exists>rest. evs = KvSetSync (key_name (int j)) (serialize ((keys s ! j)\<lparr>len := 0\<rparr>))
                           (kv_set_error e (key_name (int j))) # rest)
          \<and> (j \<noteq> 0 \<longrightarrow> len (keys s' ! j) = 0 \<and> (\<forall>l. LedOn l \<notin> set evs))
          \<and> (j = 0 \<longrightarrow> LedOn 0 \<in> set evs
                \<and> (\<exists>s1 s2. keys s1 = (keys s)[0 := (keys s ! 0)\<lparr>len := 0\<rparr>]
                      \<and> program_secret e 0 ''test'' s1 = Returns s2 \<and> keys s' ! 0 = keys s2 ! 0))
        else evs = []
          \<and> (\<exists>v. kv_store s (key_name (int j)) = Some v \<and> length v = sizeof_hotp_key_t
                \<and> keys s' ! j = deserialize v))"
    and "n = 4 - i" and "i \<le> 4" and "length (keys s) = 4"
  shows "\<exists>s' E. initialize_keys_from e i s = Returns s' \<and> length E = 4 - i
            \<and> trace s' = trace s @ concat E \<and> length (keys s') = 4
            \<and> (\<forall>j<i. keys s' ! j = keys s ! j)
            \<and> (\<forall>j. i \<le> j \<and> j < 4 \<longrightarrow> Q s s' j (E ! (j - i)))"
  using assms(2-)
proof (induction n arbitrary: i s)
  case 0
  then have "i = 4" by simp
  then have "initialize_keys_from e i s = Returns s"
    by (subst initialize_keys_from.simps) (simp add: NUM_KEYS_def)
  with 0 \<open>i = 4\<close> show ?case by auto
next
  case (Suc n)
  then have i: "i < 4" and n: "n = 4 - (i + 1)" and le: "i + 1 \<le> 4" by simp_all
  from initialize_key_effect [OF i Suc.prems(3), of e] obtain s1 evs where
    r1: "initialize_key e i s = Returns s1" and t1: "trace s1 = trace s @ evs"
    and l1: "length (keys s1) = 4"
    and f1: "\<forall>j. j \<noteq> i \<longrightarrow> keys s1 ! j = keys s ! j"
    and g1: "\<forall>k. k \<noteq> key_name (int i) \<longrightarrow> kv_store s1 k = kv_store s k"
    and q1: "if unreadable e s i then
          (\<exists>rest. evs = KvSetSync (key_name (int i)) (serialize ((keys s ! i)\<lparr>len := 0\<rparr>))
                           (kv_set_error e (key_name (int i))) # rest)
          \<and> (i \<noteq> 0 \<longrightarrow> len (keys s1 ! i) = 0 \<and> (\<forall>j. LedOn j \<notin> set evs))
          \<and> (i = 0 \<longrightarrow> LedOn 0 \<in> set evs
                \<and> (\<exists>s1' s2. keys s1' = (keys s)[0 := (keys s ! 0)\<lparr>len := 0\<rparr>]
                      \<and> program_secret e 0 ''test'' s1' = Returns s2 \<and> keys s1 = keys s2))
        else evs = [] \<and> kv_store s1 = kv_store s
          \<and> (\<exists>v. kv_store s (key_name (int i)) = Some v \<and> length v = sizeof_hotp_key_t
                \<and> keys s1 ! i = deserialize v)"
    by blast
  from Suc.IH [OF n le l1] obtain s' E where
    r: "initialize_keys_from e (i + 1) s1 = Returns s'" and lE: "length E = 4 - (i + 1)"
    and t: "trace s' = trace s1 @ concat E" and l: "length (keys s') = 4"
    and f: "\<forall>j<i + 1. keys s' ! j = keys s1 ! j"
    and q: "\<forall>j. i + 1 \<le> j \<and> j < 4 \<longrightarrow> Q s1 s' j (E ! (j - (i + 1)))"
    by blast
  from i r1 r have c0: "initialize_keys_from e i s = Returns s'"
    by (subst initialize_keys_from.simps) (simp add: NUM_KEYS_def bind_outcome_def)
  have c1: "length (evs # E) = 4 - i" using lE i by simp
  have c2: "trace s' = trace s @ concat (evs # E)" by (simp add: t t1)
  have c3: "\<forall>j<i. keys s' ! j = keys s ! j" using f f1 by simp
  have si: "keys s' ! i = keys s1 ! i" using f by simp
  have c4: "Q s s' j ((evs # E) ! (j - i))" if j: "i \<le> j \<and> j < 4" for j
  proof (cases "j = i")
    case True
    with q1 si show ?thesis
      unfolding Q by (auto split: if_splits)
  next
    case False
    with j have j1: "i + 1 \<le> j \<and> j < 4" by simp
    from j1 have "j - i = Suc (j - (i + 1))" by arith
    then have nth: "(evs # E) ! (j - i) = E ! (j - (i + 1))"
      by (simp only: nth_Cons_Suc)
    from key_name_inj4 [of j i] i j False have "key_name (int j) \<noteq> key_name (int i)" by auto
    with g1 have st: "kv_store s1 (key_name (int j)) = kv_store s (key_name (int j))" by simp
    from f1 False have kj: "keys s1 ! j = keys s ! j" by simp
    from False j i have j0: "j \<noteq> 0" by simp
    from q j1 have "Q s1 s' j (E ! (j - (i + 1)))" by blast
    then show ?thesis
      unfolding Q nth unreadable_cong [OF st] st kj using j0 by (auto split: if_splits)
  qed
  from c0 c1 c2 l c3 c4 show ?case by blast
qed

lemma length_counter_le_bytes: "length (counter_le_bytes c) = 8"
  by (simp add: counter_le_bytes_def)

lemma length_serialize: "wf_key k \<Longrightarrow> length (serialize k) = sizeof_hotp_key_t"
  by (simp add: serialize_def wf_key_def sizeof_hotp_key_t_def length_counter_le_bytes)

lemma deserialize_serialize: "wf_key k \<Longrightarrow> deserialize (serialize k) = k"
  by (simp add: deserialize_def serialize_def wf_key_def length_counter_le_bytes counter_le_roundtrip)

lemma program_secret_test_env:
  assumes "length (keys s1) = 4"
    and "program_secret test_env 0 ''test'' s1 = Returns s2"
  shows "len (keys s2 ! 0) = 4 \<and> take 4 (key (keys s2 ! 0)) = map of_char ''test''"
  using assms
  by (auto simp: program_secret_def test_env_def in_bounds_def NUM_KEYS_def Let_def upd_key_def
        bind_outcome_def save_key_def kv_set_sync_def emit_def)

lemma wf_zero_key: "wf_key (zero_key\<lparr>len := l, counter := c\<rparr>)" "wf_key zero_key"
  by (simp_all add: wf_key_def zero_key_def)

lemma zero_key_len: "zero_key\<lparr>len := 0\<rparr> = zero_key"
  by (simp add: zero_key_def)

lemma yield_loop_fired:
  assumes "\<not> cond st" and "fired st"
  shows "yield_loop ups st = Some (RETURNCODE_FAIL, st)"
  using assms by (cases ups) simp_all

lemma yield_loop_cond:
  assumes "cond st"
  shows "yield_loop ups st = Some (RETURNCODE_SUCCESS, libtock_alarm_cancel st)"
  using assms by (cases ups) simp_all

lemma yield_loop_timer_first:
  assumes "\<not> cond st" and "\<not> fired st" and "pending_alarms st = 1"
    and "CondUpcall \<notin> set pre"
  shows "yield_loop (pre @ AlarmUpcall # post) st
           = Some (RETURNCODE_FAIL, st\<lparr>pending_alarms := 0, fired := True\<rparr>)"
  using assms
proof (induction pre arbitrary: st)
  case Nil
  then show ?case
    by (simp add: yf_timeout_cb_def yield_loop_fired)
next
  case (Cons u pre)
  show ?case
  proof (cases u)
    case CondUpcall
    with Cons.prems show ?thesis by simp
  next
    case AlarmUpcall
    with Cons.prems show ?thesis
      by (simp add: yf_timeout_cb_def yield_loop_fired)
  next
    case OtherUpcall
    with Cons show ?thesis by simp
  qed
qed

lemma yield_loop_cond_first:
  assumes "\<not> cond st" and "\<not> fired st" and "pending_alarms st = 1"
    and "AlarmUpcall \<notin> set pre"
  shows "yield_loop (pre @ CondUpcall # post) st
           = Some (RETURNCODE_SUCCESS, st\<lparr>cond := True, pending_alarms := 0\<rparr>)"
  using assms
proof (induction pre arbitrary: st)
  case Nil
  then show ?case
    by (simp add: yield_loop_cond libtock_alarm_cancel_def)
next
  case (Cons u pre)
  show ?case
  proof (cases u)
    case CondUpcall
    with Cons.prems show ?thesis
      by (simp add: yield_loop_cond libtock_alarm_cancel_def)
  next
    case AlarmUpcall
    with Cons.prems show ?thesis by simp
  next
    case OtherUpcall
    with Cons show ?thesis by simp
  qed
qed



lemma main_loop_body_generate:
  assumes "in_bounds b" and "0 < len (keys s ! nat b)"
    and "\<forall>u \<in> set pre. snd u \<noteq> 1"
  shows "main_loop_body e (pre @ (b, 1) # post) 0 s = get_next_code e b (s\<lparr>pressed_btn_num := b\<rparr>)"
  using assms(1,2)
  by (simp add: main_loop_body_def yield_for_button_press [OF assms(3)] keys_at_def
        bind_outcome_def in_bounds_def)

lemma configured_facts:
  "length (keys configured_state) = 4"
  "keys configured_state ! 0 = zero_key\<lparr>len := 4, counter := 41\<rparr>"
  "kv_store configured_state = Map.empty" "trace configured_state = []"
  "keys (configured_state\<lparr>pressed_btn_num := b\<rparr>) = keys configured_state"
  "kv_store (configured_state\<lparr>pressed_btn_num := b\<rparr>) = Map.empty"
  "trace (configured_state\<lparr>pressed_btn_num := b\<rparr>) = []"
  by (simp_all add: configured_state_def boot_state_def)

lemma configured_short_press:
  "main_loop_body e [(0, 1)] 0 configured_state
     = get_next_code e 0 (configured_state\<lparr>pressed_btn_num := 0\<rparr>)"
proof -
  have "\<forall>u \<in> set ([] :: (int \<times> int) list). snd u \<noteq> 1" by simp
  from main_loop_body_generate [OF boot_facts(1) _ this, of configured_state e "[]"]
  show ?thesis by (simp add: configured_facts zero_key_def)
qed



section \<open>Properties\<close>




text \<open>
  C2. For every slot (digit counts 6, 6, 7, 8), secret and counter value: the HMAC is taken
  over the counter as 8 bytes, most significant byte first, and the code that
  \<^verbatim>\<open>get_next_code\<close> sends out denotes the number \<open>truncated mod 10 ^ d\<close>, where
  \<open>truncated\<close> is read from the 32-byte digest at \<open>offset = digest[31] mod 16\<close> as
  \<open>(digest[offset] mod 128) * 2^24 + digest[offset+1] * 2^16 + digest[offset+2] * 2^8 +
  digest[offset+3]\<close>.
\<close>

theorem generated_code_is_truncated_hmac:
  assumes "in_bounds slot_num" and "length (keys s) = 4"
    and "k0 = keys s ! nat slot_num"
    and "decrypt e (iv k0) (key k0) (len k0) = (keylen, secret)"
    and "hmac e secret keylen (counter_bytes_spec (counter k0)) (uninit_hmac_output_buf e)
           = Returns (ret, digest, evs)"
    and "length digest = 32"
  shows "\<exists>s' c. get_next_code e slot_num s = Returns s'
           \<and> emitted_codes (new_events s s') = [c]
           \<and> decimal_value c = code_spec (nat (key_digits ! nat slot_num)) (map unat digest)"
proof -
  from assms(1) have slot: "nat slot_num < 4"
    by (auto simp: in_bounds_def NUM_KEYS_def)
  with assms(2) have "nat slot_num < length (keys s)" by simp
  from get_next_code_emits [OF assms(1) this assms(3) assms(4)] assms(5)
  obtain s' where r: "get_next_code e slot_num s = Returns s'"
    and c: "emitted_codes (new_events s s') = [hotp_code (nat slot_num) digest]"
    by (auto simp: moving_factor_is_big_endian)
  have "decimal_value (hotp_code (nat slot_num) digest) = unat (hotp_value (nat slot_num) digest)"
    by (simp add: hotp_code_padded(1) [OF slot] decimal_value_zeros decimal_value_decimal)
  also have "\<dots> = code_spec (nat (key_digits ! nat slot_num)) (map unat digest)"
    using slot assms(6) by (rule hotp_value_spec)
  finally show ?thesis using r c by blast
qed

theorem generated_code_is_truncated_hmac_witness:
  "in_bounds 0 \<and> length (keys boot_state) = 4 \<and> length digest_1234 = 32
   \<and> (\<exists>s' c. get_next_code test_env 0 boot_state = Returns s'
           \<and> emitted_codes (new_events boot_state s') = [c]
           \<and> decimal_value c = 1234)"
proof -
  have h1: "in_bounds 0" by (simp add: in_bounds_def NUM_KEYS_def)
  have h2: "length (keys boot_state) = 4" by (simp add: boot_state_def)
  have h4: "decrypt test_env (iv (keys boot_state ! nat 0)) (key (keys boot_state ! nat 0))
              (len (keys boot_state ! nat 0)) = (0, replicate 64 0)"
    by (simp add: test_env_def boot_state_def zero_key_def)
  have h6: "length digest_1234 = 32" by (simp add: digest_1234_def)
  from generated_code_is_truncated_hmac [OF h1 h2 refl h4 test_env_hmac h6]
  show ?thesis using h1 h2 h6
    by (simp add: key_digits_def code_spec_digest_1234)
qed

text \<open>
  C3. The claim is that in the generate flow a decrypt failure or an HMAC failure is
  reported on the console and aborts the flow before a code is sent and before the
  counter is incremented. \<^verbatim>\<open>program_secret\<close> tests the results of both of its calls
  and aborts; \<^verbatim>\<open>get_next_code\<close> tests neither the result of \<^verbatim>\<open>decrypt\<close> nor that of
  \<^verbatim>\<open>hmac\<close>. A short press on the configured slot 0 (counter 41) with \<^verbatim>\<open>hmac_run\<close>
  returning \<open>-1\<close> increments and saves the counter and sends 000000, the code of the
  uninitialised output buffer; with \<^verbatim>\<open>decrypt\<close> returning \<open>-1\<close> it does the same with
  no report at all. Both rounds of the main loop return.
\<close>

theorem generate_flow_continues_after_failure:
  "(case main_loop_body (test_env\<lparr>hmac_run := - 1\<rparr>) [(0, 1)] 0 configured_state of
      Returns s' \<Rightarrow>
        counter (keys s' ! 0) = 42
        \<and> trace s' = [LedOn 0, Printf (MsgHmacFailure (- 1)),
                       KvSetSync ''hotp-key-0'' (serialize (zero_key\<lparr>len := 4, counter := 42\<rparr>)) 0,
                       Printf (MsgCode ''000000''), LedOff 0]
    | Blocks \<Rightarrow> False
    | OutOfBounds i \<Rightarrow> False)
   \<and> (case main_loop_body (test_env\<lparr>decrypt := \<lambda>i k l. (- 1, k)\<rparr>) [(0, 1)] 0 configured_state of
      Returns s' \<Rightarrow>
        counter (keys s' ! 0) = 42
        \<and> trace s' = [LedOn 0,
                       KvSetSync ''hotp-key-0'' (serialize (zero_key\<lparr>len := 4, counter := 42\<rparr>)) 0,
                       Printf (MsgCode ''001234''), LedOff 0]
    | Blocks \<Rightarrow> False
    | OutOfBounds i \<Rightarrow> False)"
proof -
  let ?s = "configured_state\<lparr>pressed_btn_num := 0\<rparr>"
  let ?e1 = "test_env\<lparr>hmac_run := - 1\<rparr>"
  let ?e2 = "test_env\<lparr>decrypt := \<lambda>i k l. (- 1, k)\<rparr>"
  have lt: "nat 0 < length (keys ?s)" by (simp add: configured_facts)
  have k0: "keys ?s ! nat 0 = zero_key\<lparr>len := 4, counter := 41\<rparr>"
    by (simp add: configured_facts)
  have d1: "decrypt ?e1 (iv (keys ?s ! nat 0)) (key (keys ?s ! nat 0)) (len (keys ?s ! nat 0))
             = (4, replicate 64 0)"
    by (simp add: configured_facts test_env_def zero_key_def)
  have d2: "decrypt ?e2 (iv (keys ?s ! nat 0)) (key (keys ?s ! nat 0)) (len (keys ?s ! nat 0))
             = (- 1, replicate 64 0)"
    by (simp add: configured_facts zero_key_def)
  have f1: "kv_set_error ?e1 (key_name 0) = 0" "\<not> usbkeyboardhid_exists ?e1"
    "uninit_hmac_output_buf ?e1 = replicate 32 0"
    and f2: "kv_set_error ?e2 (key_name 0) = 0" "\<not> usbkeyboardhid_exists ?e2"
    and f0: "kv_set_error test_env k = 0" "\<not> usbkeyboardhid_exists test_env"
      "uninit_hmac_output_buf test_env = replicate 32 0" for k
    by (simp_all add: test_env_def)
  from get_next_code_returns [OF boot_facts(1) lt k0 [symmetric] d1 [unfolded k0] hmac_run_failure refl refl refl]
  have c1: "case main_loop_body ?e1 [(0, 1)] 0 configured_state of
      Returns s' \<Rightarrow>
        counter (keys s' ! 0) = 42
        \<and> trace s' = [LedOn 0, Printf (MsgHmacFailure (- 1)),
                       KvSetSync ''hotp-key-0'' (serialize (zero_key\<lparr>len := 4, counter := 42\<rparr>)) 0,
                       Printf (MsgCode ''000000''), LedOff 0]
    | Blocks \<Rightarrow> False
    | OutOfBounds i \<Rightarrow> False"
    unfolding configured_short_press
    by (auto simp: f0 configured_facts key_name_0 hotp_code_0_zeros)
  from get_next_code_returns [OF boot_facts(1) lt k0 [symmetric] d2 [unfolded k0] test_env_upd_facts(4) refl refl refl]
  have c2: "case main_loop_body ?e2 [(0, 1)] 0 configured_state of
      Returns s' \<Rightarrow>
        counter (keys s' ! 0) = 42
        \<and> trace s' = [LedOn 0,
                       KvSetSync ''hotp-key-0'' (serialize (zero_key\<lparr>len := 4, counter := 42\<rparr>)) 0,
                       Printf (MsgCode ''001234''), LedOff 0]
    | Blocks \<Rightarrow> False
    | OutOfBounds i \<Rightarrow> False"
    unfolding configured_short_press
    by (auto simp: f0 configured_facts key_name_0 hotp_code_0_digest_1234)
  from c1 c2 show ?thesis by blast
qed

text \<open>
  C4, as amended. \<^verbatim>\<open>initialize_keys\<close> always returns, and its events are those of the
  four slots in order. For every slot whose record cannot be read or has not the size of
  the struct, the first event is the write of the slot's record with \<^verbatim>\<open>len = 0\<close>; the
  slots 1 to 3 are then left with \<^verbatim>\<open>len = 0\<close>. For slot 0 the default secret
  \<open>test\<close> is then programmed in every such case, whether nothing was stored or a record
  of the wrong size was, and slot 0 ends as \<^verbatim>\<open>program_secret\<close> leaves it. A slot whose
  record is read with the right size is copied from it, with no event at all.
\<close>

theorem boot_load_self_heals:
  assumes "length (keys s) = 4"
  shows "\<exists>s' E. initialize_keys e s = Returns s' \<and> length E = 4 \<and> new_events s s' = concat E
    \<and> (\<forall>i<4.
          if unreadable e s i then
            (\<exists>rest. E ! i = KvSetSync (key_name (int i)) (serialize ((keys s ! i)\<lparr>len := 0\<rparr>))
                               (kv_set_error e (key_name (int i))) # rest)
            \<and> (i \<noteq> 0 \<longrightarrow> len (keys s' ! i) = 0 \<and> (\<forall>l. LedOn l \<notin> set (E ! i)))
            \<and> (i = 0 \<longrightarrow> LedOn 0 \<in> set (E ! i)
                  \<and> (\<exists>s1 s2. keys s1 = (keys s)[0 := (keys s ! 0)\<lparr>len := 0\<rparr>]
                        \<and> program_secret e 0 ''test'' s1 = Returns s2 \<and> keys s' ! 0 = keys s2 ! 0))
          else E ! i = []
            \<and> (\<exists>v. kv_store s (key_name (int i)) = Some v \<and> length v = sizeof_hotp_key_t
                  \<and> keys s' ! i = deserialize v))"
proof -
  define Q where "Q = (\<lambda>(s :: app_state) (s' :: app_state) j evs.
       if unreadable e s j then
          (\<exists>rest. evs = KvSetSync (key_name (int j)) (serialize ((keys s ! j)\<lparr>len := 0\<rparr>))
                           (kv_set_error e (key_name (int j))) # rest)
          \<and> (j \<noteq> 0 \<longrightarrow> len (keys s' ! j) = 0 \<and> (\<forall>l. LedOn l \<notin> set evs))
          \<and> (j = 0 \<longrightarrow> LedOn 0 \<in> set evs
                \<and> (\<exists>s1 s2. keys s1 = (keys s)[0 := (keys s ! 0)\<lparr>len := 0\<rparr>]
                      \<and> program_secret e 0 ''test'' s1 = Returns s2 \<and> keys s' ! 0 = keys s2 ! 0))
        else evs = []
          \<and> (\<exists>v. kv_store s (key_name (int j)) = Some v \<and> length v = sizeof_hotp_key_t
                \<and> keys s' ! j = deserialize v))"
  from initialize_keys_from_effect [OF Q_def refl, of 0 s] assms
  obtain s' E where r: "initialize_keys_from e 0 s = Returns s'" and l: "length E = 4"
    and t: "trace s' = trace s @ concat E"
    and q: "\<forall>j. 0 \<le> j \<and> j < 4 \<longrightarrow> Q s s' j (E ! (j - 0))"
    by auto
  from t have n: "new_events s s' = concat E" by (simp add: new_events_def)
  from q have q': "\<forall>i<4. Q s s' i (E ! i)" by simp
  from r l n q' have "\<exists>s' E. initialize_keys e s = Returns s' \<and> length E = 4
      \<and> new_events s s' = concat E \<and> (\<forall>i<4. Q s s' i (E ! i))"
    unfolding initialize_keys_def by blast
  then show ?thesis
    unfolding Q_def by simp
qed

theorem boot_load_self_heals_witness:
  "\<exists>s' E. initialize_keys test_env
             (boot_state\<lparr>kv_store := [''hotp-key-0'' \<mapsto> [1, 2, 3],
                ''hotp-key-1'' \<mapsto> serialize (zero_key\<lparr>len := 4, counter := 7\<rparr>)]\<rparr>) = Returns s'
      \<and> length E = 4 \<and> trace s' = concat E
      \<and> (\<exists>rest. E ! 0 = KvSetSync ''hotp-key-0'' (serialize zero_key) 0 # rest)
      \<and> LedOn 0 \<in> set (E ! 0)
      \<and> E ! 1 = [] \<and> keys s' ! 1 = zero_key\<lparr>len := 4, counter := 7\<rparr>
      \<and> (\<exists>rest. E ! 2 = KvSetSync ''hotp-key-2'' (serialize zero_key) 0 # rest)
      \<and> len (keys s' ! 2) = 0
      \<and> (\<exists>rest. E ! 3 = KvSetSync ''hotp-key-3'' (serialize zero_key) 0 # rest)
      \<and> len (keys s' ! 3) = 0"
proof -
  define s0 where "s0 = boot_state\<lparr>kv_store := [''hotp-key-0'' \<mapsto> [1, 2, 3],
                ''hotp-key-1'' \<mapsto> serialize (zero_key\<lparr>len := 4, counter := 7\<rparr>)]\<rparr>"
  have l0: "length (keys s0) = 4" and t0: "trace s0 = []"
    and k0: "keys s0 ! 0 = zero_key" "keys s0 ! 1 = zero_key" "keys s0 ! 2 = zero_key" "keys s0 ! 3 = zero_key"
    by (simp_all add: s0_def boot_state_def)
  have rc: "kv_set_error test_env k = 0" for k by (simp add: test_env_def)
  have u0: "unreadable test_env s0 0"
    by (simp add: unreadable_def kv_get_sync_def test_env_def s0_def key_names sizeof_hotp_key_t_def)
  have st1: "kv_store s0 (key_name (int 1)) = Some (serialize (zero_key\<lparr>len := 4, counter := 7\<rparr>))"
    by (simp add: s0_def key_names)
  have u1: "\<not> unreadable test_env s0 1"
    using st1 by (simp add: unreadable_def kv_get_sync_def test_env_def length_serialize [OF wf_zero_key(1)])
  have u2: "unreadable test_env s0 2"
    by (simp add: unreadable_def kv_get_sync_def test_env_def s0_def key_names)
  have u3: "unreadable test_env s0 3"
    by (simp add: unreadable_def kv_get_sync_def test_env_def s0_def key_names)
  from boot_load_self_heals [OF l0, of test_env]
  obtain s' E where r: "initialize_keys test_env s0 = Returns s'" and l: "length E = 4"
    and n: "new_events s0 s' = concat E"
    and q: "\<forall>i<4.
          if unreadable test_env s0 i then
            (\<exists>rest. E ! i = KvSetSync (key_name (int i)) (serialize ((keys s0 ! i)\<lparr>len := 0\<rparr>))
                               (kv_set_error test_env (key_name (int i))) # rest)
            \<and> (i \<noteq> 0 \<longrightarrow> len (keys s' ! i) = 0 \<and> (\<forall>l. LedOn l \<notin> set (E ! i)))
            \<and> (i = 0 \<longrightarrow> LedOn 0 \<in> set (E ! i)
                  \<and> (\<exists>s1 s2. keys s1 = (keys s0)[0 := (keys s0 ! 0)\<lparr>len := 0\<rparr>]
                        \<and> program_secret test_env 0 ''test'' s1 = Returns s2 \<and> keys s' ! 0 = keys s2 ! 0))
          else E ! i = []
            \<and> (\<exists>v. kv_store s0 (key_name (int i)) = Some v \<and> length v = sizeof_hotp_key_t
                  \<and> keys s' ! i = deserialize v)"
    by blast
  from n t0 have t: "trace s' = concat E" by (simp add: new_events_def)
  from q [rule_format, of 0] u0
  have c0: "(\<exists>rest. E ! 0 = KvSetSync ''hotp-key-0'' (serialize zero_key) 0 # rest) \<and> LedOn 0 \<in> set (E ! 0)"
    by (simp add: key_names rc k0 zero_key_len)
  from q [rule_format, of 1] u1 st1
  have c1: "E ! 1 = [] \<and> keys s' ! 1 = zero_key\<lparr>len := 4, counter := 7\<rparr>"
    by (auto simp: deserialize_serialize [OF wf_zero_key(1)])
  from q [rule_format, of 2] u2
  have c2: "(\<exists>rest. E ! 2 = KvSetSync ''hotp-key-2'' (serialize zero_key) 0 # rest) \<and> len (keys s' ! 2) = 0"
    by (simp add: key_names rc k0 zero_key_len)
  from q [rule_format, of 3] u3
  have c3: "(\<exists>rest. E ! 3 = KvSetSync ''hotp-key-3'' (serialize zero_key) 0 # rest) \<and> len (keys s' ! 3) = 0"
    by (simp add: key_names rc k0 zero_key_len)
  from r l t c0 c1 c2 c3 show ?thesis
    unfolding s0_def by blast
qed

text \<open>
  C4 as stated fails in its second half: the default secret is programmed also when a
  record existed under the key of slot 0 but had the wrong size. With three bytes stored
  there, the load runs \<^verbatim>\<open>program_default_secret\<close>: the LED of slot 0 is switched on
  and the slot ends configured with the four bytes of \<open>test\<close>.
\<close>

theorem default_secret_over_missized_record:
  "case initialize_keys test_env (boot_state\<lparr>kv_store := [''hotp-key-0'' \<mapsto> [1, 2, 3]]\<rparr>) of
     Returns s' \<Rightarrow> LedOn 0 \<in> set (trace s') \<and> len (keys s' ! 0) = 4
                   \<and> take 4 (key (keys s' ! 0)) = map of_char ''test''
   | Blocks \<Rightarrow> False
   | OutOfBounds i \<Rightarrow> False"
proof -
  define s0 where "s0 = boot_state\<lparr>kv_store := [''hotp-key-0'' \<mapsto> [1, 2, 3]]\<rparr>"
  define Q where "Q = (\<lambda>(s :: app_state) (s' :: app_state) j evs.
       if unreadable test_env s j then
          (\<exists>rest. evs = KvSetSync (key_name (int j)) (serialize ((keys s ! j)\<lparr>len := 0\<rparr>))
                           (kv_set_error test_env (key_name (int j))) # rest)
          \<and> (j \<noteq> 0 \<longrightarrow> len (keys s' ! j) = 0 \<and> (\<forall>l. LedOn l \<notin> set evs))
          \<and> (j = 0 \<longrightarrow> LedOn 0 \<in> set evs
                \<and> (\<exists>s1 s2. keys s1 = (keys s)[0 := (keys s ! 0)\<lparr>len := 0\<rparr>]
                      \<and> program_secret test_env 0 ''test'' s1 = Returns s2 \<and> keys s' ! 0 = keys s2 ! 0))
        else evs = []
          \<and> (\<exists>v. kv_store s (key_name (int j)) = Some v \<and> length v = sizeof_hotp_key_t
                \<and> keys s' ! j = deserialize v))"
  have l0: "length (keys s0) = 4" and t0: "trace s0 = []"
    by (simp_all add: s0_def boot_state_def)
  have u0: "unreadable test_env s0 0"
    by (simp add: unreadable_def kv_get_sync_def test_env_def s0_def key_names sizeof_hotp_key_t_def)
  from initialize_keys_from_effect [OF Q_def refl, of 0 s0] l0
  obtain s' E where r: "initialize_keys test_env s0 = Returns s'" and l: "length E = 4"
    and t: "trace s' = trace s0 @ concat E"
    and q: "Q s0 s' 0 (E ! 0)"
    by (auto simp: initialize_keys_def)
  from q u0 obtain s1 s2 where led: "LedOn 0 \<in> set (E ! 0)"
    and k1: "keys s1 = (keys s0)[0 := (keys s0 ! 0)\<lparr>len := 0\<rparr>]"
    and p: "program_secret test_env 0 ''test'' s1 = Returns s2"
    and k: "keys s' ! 0 = keys s2 ! 0"
    unfolding Q_def by auto
  from k1 l0 have "length (keys s1) = 4" by simp
  from program_secret_test_env [OF this p] k
  have c: "len (keys s' ! 0) = 4 \<and> take 4 (key (keys s' ! 0)) = map of_char ''test''"
    by simp
  from l obtain a b c' d where E: "E = [a, b, c', d]"
    by (auto simp: length_Suc_conv eval_nat_numeral)
  with led t t0 have "LedOn 0 \<in> set (trace s')" by simp
  with c r show ?thesis
    unfolding s0_def by simp
qed

text \<open>
  C5. The claim is that \<^verbatim>\<open>ms_to_ticks\<close> equals the exact conversion
  \<open>(ms div 1000) * f + ((ms mod 1000) * f) div 1000\<close>, so that the 500 ms hold-detection
  delay arms an alarm of about 500 ms. The source divides by 10 where it computes the whole
  seconds: at a 32768 Hz alarm, 500 ms become 1654784 ticks (50.5 s), where the exact
  conversion gives 16384 ticks.
\<close>

theorem ms_to_ticks_500_diverges:
  "ms_to_ticks 32768 500 = Some 1654784 \<and> ms_to_ticks_spec 32768 500 = 16384"
  by (simp add: ms_to_ticks_def ms_to_ticks_spec_def)

text \<open>
  C6. Started with no timer of its own pending, for every flag, timeout and sequence of
  upcalls: when \<^verbatim>\<open>libtocksync_alarm_yield_for_with_timeout\<close> returns success the flag
  waited on is true; otherwise it returns the failure code, the timer has expired and
  the flag is still false; in both cases no timer it armed is pending any more, so that
  a later expiry upcall changes nothing. It returns whenever the flag is already true or
  the upcalls contain the one that sets the flag or the expiry of the timer: with the
  failure code when the timer expires before the flag is set, with success when the flag
  is set before the timer expires.
\<close>

theorem yield_for_with_timeout_contract:
  assumes "pending_alarms st = 0"
  shows "(\<forall>rc st'. libtocksync_alarm_yield_for_with_timeout ups ms st = Some (rc, st') \<longrightarrow>
            (rc = RETURNCODE_SUCCESS \<and> cond st' \<or> rc = RETURNCODE_FAIL \<and> \<not> cond st' \<and> fired st')
            \<and> pending_alarms st' = 0 \<and> deliver AlarmUpcall st' = st')
         \<and> (cond st \<or> CondUpcall \<in> set ups \<or> AlarmUpcall \<in> set ups \<longrightarrow>
              libtocksync_alarm_yield_for_with_timeout ups ms st \<noteq> None)
         \<and> (\<forall>pre post. \<not> cond st \<and> ups = pre @ AlarmUpcall # post \<and> CondUpcall \<notin> set pre \<longrightarrow>
              libtocksync_alarm_yield_for_with_timeout ups ms st
                = Some (RETURNCODE_FAIL, st\<lparr>fired := True\<rparr>))
         \<and> (\<forall>pre post. \<not> cond st \<and> ups = pre @ CondUpcall # post \<and> AlarmUpcall \<notin> set pre \<longrightarrow>
              libtocksync_alarm_yield_for_with_timeout ups ms st
                = Some (RETURNCODE_SUCCESS, st\<lparr>cond := True, fired := False\<rparr>))"
proof -
  define st1 where "st1 = libtock_alarm_in_ms ms (st\<lparr>fired := False\<rparr>)"
  from assms have i: "\<not> fired st1" "pending_alarms st1 = 1" "cond st1 = cond st"
    by (simp_all add: st1_def libtock_alarm_in_ms_def)
  have a: "(rc = RETURNCODE_SUCCESS \<and> cond st' \<or> rc = RETURNCODE_FAIL \<and> \<not> cond st' \<and> fired st')
            \<and> pending_alarms st' = 0 \<and> deliver AlarmUpcall st' = st'"
    if "yield_loop ups st1 = Some (rc, st')" for rc st'
    using yield_loop_post [OF i(1) i(2) that] by auto
  have b: "yield_loop ups st1 \<noteq> None"
    if "cond st \<or> CondUpcall \<in> set ups \<or> AlarmUpcall \<in> set ups"
    using that i by (intro yield_loop_returns) auto
  have c: "yield_loop ups st1 = Some (RETURNCODE_FAIL, st\<lparr>fired := True\<rparr>)"
    if "\<not> cond st \<and> ups = pre @ AlarmUpcall # post \<and> CondUpcall \<notin> set pre" for pre post
  proof -
    from that i have "yield_loop (pre @ AlarmUpcall # post) st1
           = Some (RETURNCODE_FAIL, st1\<lparr>pending_alarms := 0, fired := True\<rparr>)"
      by (intro yield_loop_timer_first) simp_all
    moreover from assms have "st1\<lparr>pending_alarms := 0, fired := True\<rparr> = st\<lparr>fired := True\<rparr>"
      by (simp add: st1_def libtock_alarm_in_ms_def)
    ultimately show ?thesis using that by simp
  qed
  have d: "yield_loop ups st1 = Some (RETURNCODE_SUCCESS, st\<lparr>cond := True, fired := False\<rparr>)"
    if "\<not> cond st \<and> ups = pre @ CondUpcall # post \<and> AlarmUpcall \<notin> set pre" for pre post
  proof -
    from that i have "yield_loop (pre @ CondUpcall # post) st1
           = Some (RETURNCODE_SUCCESS, st1\<lparr>cond := True, pending_alarms := 0\<rparr>)"
      by (intro yield_loop_cond_first) simp_all
    moreover from assms have "st1\<lparr>cond := True, pending_alarms := 0\<rparr> = st\<lparr>cond := True, fired := False\<rparr>"
      by (simp add: st1_def libtock_alarm_in_ms_def)
    ultimately show ?thesis using that by simp
  qed
  from a b c d show ?thesis
    unfolding libtocksync_alarm_yield_for_with_timeout_def st1_def [symmetric] by blast
qed

theorem yield_for_with_timeout_contract_witness:
  "(\<exists>st'. libtocksync_alarm_yield_for_with_timeout [OtherUpcall, CondUpcall] 500
             \<lparr>cond = False, fired = True, pending_alarms = 0\<rparr> = Some (RETURNCODE_SUCCESS, st')
          \<and> cond st' \<and> pending_alarms st' = 0)
   \<and> (\<exists>st'. libtocksync_alarm_yield_for_with_timeout [OtherUpcall, AlarmUpcall, CondUpcall] 500
             \<lparr>cond = False, fired = True, pending_alarms = 0\<rparr> = Some (RETURNCODE_FAIL, st')
          \<and> \<not> cond st' \<and> fired st' \<and> pending_alarms st' = 0)"
proof -
  define st0 where "st0 = \<lparr>cond = False, fired = True, pending_alarms = 0\<rparr>"
  have p: "pending_alarms st0 = 0" by (simp add: st0_def)
  have e1: "libtocksync_alarm_yield_for_with_timeout [OtherUpcall, CondUpcall] 500 st0
              = Some (RETURNCODE_SUCCESS, \<lparr>cond = True, fired = False, pending_alarms = 0\<rparr>)"
    by (simp add: libtocksync_alarm_yield_for_with_timeout_def libtock_alarm_in_ms_def
          libtock_alarm_cancel_def st0_def)
  have e2: "libtocksync_alarm_yield_for_with_timeout [OtherUpcall, AlarmUpcall, CondUpcall] 500 st0
              = Some (RETURNCODE_FAIL, \<lparr>cond = False, fired = True, pending_alarms = 0\<rparr>)"
    by (simp add: libtocksync_alarm_yield_for_with_timeout_def libtock_alarm_in_ms_def
          yf_timeout_cb_def st0_def)
  from yield_for_with_timeout_contract [OF p, of "[OtherUpcall, CondUpcall]" 500] e1
  have w1: "\<exists>st'. libtocksync_alarm_yield_for_with_timeout [OtherUpcall, CondUpcall] 500 st0
               = Some (RETURNCODE_SUCCESS, st') \<and> cond st' \<and> pending_alarms st' = 0"
    by (auto simp: RETURNCODE_SUCCESS_def RETURNCODE_FAIL_def)
  from yield_for_with_timeout_contract [OF p, of "[OtherUpcall, AlarmUpcall, CondUpcall]" 500] e2
  have w2: "\<exists>st'. libtocksync_alarm_yield_for_with_timeout [OtherUpcall, AlarmUpcall, CondUpcall] 500 st0
               = Some (RETURNCODE_FAIL, st') \<and> \<not> cond st' \<and> fired st' \<and> pending_alarms st' = 0"
    by (auto simp: RETURNCODE_SUCCESS_def RETURNCODE_FAIL_def)
  from w1 w2 show ?thesis unfolding st0_def by blast
qed

text \<open>
  C7. For every slot and secret: when decoding the secret fails, or encrypting it fails,
  \<^verbatim>\<open>program_secret\<close> returns with the slot unconfigured (\<^verbatim>\<open>len = 0\<close>), the error
  reported on the console and nothing else done: the store is as it was (no write is
  even attempted), and the counter of the slot is not reset.
\<close>

theorem program_secret_failure_persists_nothing:
  assumes "in_bounds slot_num" and "length (keys s) = 4"
    and "k0 = keys s ! nat slot_num"
    and "base32_decode e secret = (ret, plaintext_key)"
    and "encrypt e plaintext_key ret (key k0) (iv k0) = (ret2, key', iv')"
    and "ret < 0 \<or> ret2 < 0"
  shows "\<exists>s'. program_secret e slot_num secret s = Returns s'
           \<and> len (keys s' ! nat slot_num) = 0
           \<and> counter (keys s' ! nat slot_num) = counter k0
           \<and> kv_store s' = kv_store s
           \<and> new_events s s' =
                 (if ret < 0 then [Printf MsgCannotDecode]
                  else [Printf (MsgErrorRc ret2), Printf MsgCannotEncrypt])"
proof -
  from assms(1) have slot: "nat slot_num < 4"
    by (auto simp: in_bounds_def NUM_KEYS_def)
  with assms(2) have lt: "nat slot_num < length (keys s)" by simp
  show ?thesis
  proof (cases "ret < 0")
    case True
    with assms(1,3,4) lt show ?thesis
      by (simp add: program_secret_def upd_key_def emit_def new_events_def)
  next
    case False
    with assms(6) have "ret2 < 0" by simp
    with False assms(1,3,4,5) lt show ?thesis
      by (simp add: program_secret_def upd_key_def emit_def new_events_def Let_def)
  qed
qed

theorem program_secret_failure_persists_nothing_witness:
  "(\<exists>s'. program_secret (test_env\<lparr>base32_decode := \<lambda>secret. (- 1, [])\<rparr>) 2 ''0189''
            (boot_state\<lparr>keys := [zero_key, zero_key, zero_key\<lparr>len := 4, counter := 5\<rparr>, zero_key]\<rparr>)
          = Returns s'
      \<and> len (keys s' ! 2) = 0 \<and> counter (keys s' ! 2) = 5 \<and> kv_store s' = Map.empty
      \<and> trace s' = [Printf MsgCannotDecode])
   \<and> (\<exists>s'. program_secret (test_env\<lparr>encrypt := \<lambda>p n k i. (- 6, k, i)\<rparr>) 2 ''MFRGG''
            (boot_state\<lparr>keys := [zero_key, zero_key, zero_key\<lparr>len := 4, counter := 5\<rparr>, zero_key]\<rparr>)
          = Returns s'
      \<and> len (keys s' ! 2) = 0 \<and> counter (keys s' ! 2) = 5 \<and> kv_store s' = Map.empty
      \<and> trace s' = [Printf (MsgErrorRc (- 6)), Printf MsgCannotEncrypt])"
proof -
  define s0 where
    "s0 = boot_state\<lparr>keys := [zero_key, zero_key, zero_key\<lparr>len := 4, counter := 5\<rparr>, zero_key]\<rparr>"
  have b: "in_bounds 2" by (simp add: in_bounds_def NUM_KEYS_def)
  have l: "length (keys s0) = 4" by (simp add: s0_def)
  have k2: "keys s0 ! 2 = zero_key\<lparr>len := 4, counter := 5\<rparr>" by (simp add: s0_def)
  have st: "kv_store s0 = Map.empty" "trace s0 = []" by (simp_all add: s0_def boot_state_def)
  let ?e1 = "test_env\<lparr>base32_decode := \<lambda>secret. (- 1, [])\<rparr>"
  let ?e2 = "test_env\<lparr>encrypt := \<lambda>p n k i. (- 6, k, i)\<rparr>"
  have d1: "base32_decode ?e1 ''0189'' = (- 1, [])" by simp
  have e1: "encrypt ?e1 [] (- 1) (key (keys s0 ! nat 2)) (iv (keys s0 ! nat 2))
              = (- 1, key (keys s0 ! nat 2), iv (keys s0 ! nat 2))"
    by (simp add: test_env_def)
  have f1: "(- 1 :: int) < 0 \<or> (- 1 :: int) < 0" by simp
  have d2: "base32_decode ?e2 ''MFRGG'' = (5, map of_char ''MFRGG'')" by (simp add: test_env_def)
  have e2: "encrypt ?e2 (map of_char ''MFRGG'') 5 (key (keys s0 ! nat 2)) (iv (keys s0 ! nat 2))
              = (- 6, key (keys s0 ! nat 2), iv (keys s0 ! nat 2))"
    by simp
  have f2: "(5 :: int) < 0 \<or> (- 6 :: int) < 0" by simp
  from program_secret_failure_persists_nothing [OF b l refl d1 e1 f1]
  have w1: "\<exists>s'. program_secret ?e1 2 ''0189'' s0 = Returns s'
      \<and> len (keys s' ! 2) = 0 \<and> counter (keys s' ! 2) = 5 \<and> kv_store s' = Map.empty
      \<and> trace s' = [Printf MsgCannotDecode]"
    by (simp add: k2 st new_events_def)
  from program_secret_failure_persists_nothing [OF b l refl d2 e2 f2]
  have w2: "\<exists>s'. program_secret ?e2 2 ''MFRGG'' s0 = Returns s'
      \<and> len (keys s' ! 2) = 0 \<and> counter (keys s' ! 2) = 5 \<and> kv_store s' = Map.empty
      \<and> trace s' = [Printf (MsgErrorRc (- 6)), Printf MsgCannotEncrypt]"
    by (simp add: k2 st new_events_def)
  from w1 w2 show ?thesis unfolding s0_def by blast
qed

text \<open>
  C8. For every slot with \<^verbatim>\<open>len = 0\<close>: a short press of its button (the level sampled
  after the delay is 0) does not run the code generation; the round of the main loop
  returns with the message that the slot is not configured as its only event, and with
  the keys (so the counter of the slot too) and the store unchanged.
\<close>

theorem short_press_on_unconfigured_slot:
  assumes "in_bounds b" and "length (keys s) = 4"
    and "len (keys s ! nat b) = 0"
    and "\<forall>u \<in> set pre. snd u \<noteq> 1"
  shows "main_loop_body e (pre @ (b, 1) # post) 0 s =
           Returns (s\<lparr>pressed_btn_num := b, trace := trace s @ [Printf (MsgNotConfigured b)]\<rparr>)"
  using assms(1,3)
  by (simp add: main_loop_body_def yield_for_button_press [OF assms(4)] keys_at_def
        bind_outcome_def emit_def in_bounds_def)

theorem short_press_on_unconfigured_slot_witness:
  "main_loop_body test_env [(1, 0), (3, 1)] 0 boot_state =
     Returns (boot_state\<lparr>pressed_btn_num := 3, trace := [Printf (MsgNotConfigured 3)]\<rparr>)"
proof -
  have b: "in_bounds 3" by (simp add: in_bounds_def NUM_KEYS_def)
  have l: "len (keys boot_state ! nat 3) = 0" by (simp add: boot_state_def zero_key_def)
  have p: "\<forall>u \<in> set [(1::int, 0::int)]. snd u \<noteq> 1" by simp
  from short_press_on_unconfigured_slot [OF b boot_facts(2) l p, of test_env "[]"]
  show ?thesis by (simp add: boot_facts)
qed

text \<open>
  C9. The code \<^verbatim>\<open>get_next_code\<close> sends out is the decimal rendering of the value
  (the truncation modulo \<open>10 ^ d\<close>), padded with zeros on the left to exactly \<open>d\<close>
  characters, all of them digits. At the digest that truncates to 1234 this is
  \<open>001234\<close> in slot 0 (six digits) and \<open>00001234\<close> in slot 3 (eight digits).
\<close>

theorem code_is_zero_padded_decimal:
  assumes "in_bounds slot_num" and "length (keys s) = 4"
    and "k0 = keys s ! nat slot_num"
    and "decrypt e (iv k0) (key k0) (len k0) = (keylen, secret)"
    and "hmac e secret keylen (moving_factor (counter k0)) (uninit_hmac_output_buf e)
           = Returns (ret, digest, evs)"
    and "d = nat (key_digits ! nat slot_num)"
    and "v = unat (dynamic_truncate digest) mod 10 ^ d"
  shows "\<exists>s' c. get_next_code e slot_num s = Returns s'
           \<and> emitted_codes (new_events s s') = [c]
           \<and> c = replicate (d - length (decimal v)) CHR ''0'' @ decimal v
           \<and> length c = d \<and> (\<forall>ch \<in> set c. is_digit ch) \<and> decimal_value c = v"
proof -
  from assms(1) have slot: "nat slot_num < 4"
    by (auto simp: in_bounds_def NUM_KEYS_def)
  with assms(2) have "nat slot_num < length (keys s)" by simp
  from get_next_code_emits [OF assms(1) this assms(3) assms(4) assms(5)]
  obtain s' where r: "get_next_code e slot_num s = Returns s'"
    and c: "emitted_codes (new_events s s') = [hotp_code (nat slot_num) digest]"
    by auto
  from key_digits_cases [OF slot]
  have "unat ((10 :: 32 word) ^ d) = 10 ^ d"
    by (auto simp: assms(6))
  then have v: "unat (hotp_value (nat slot_num) digest) = v"
    by (simp add: hotp_value_def unat_mod assms(6) assms(7))
  define c0 where "c0 = hotp_code (nat slot_num) digest"
  have pad: "c0 = replicate (d - length (decimal v)) CHR ''0'' @ decimal v"
    using hotp_code_padded(1) [OF slot, of digest] by (simp add: v assms(6) c0_def)
  have len: "length c0 = d"
    using hotp_code_padded(2) [OF slot, of digest] by (simp add: assms(6) c0_def)
  have dig: "\<forall>ch \<in> set c0. is_digit ch"
    using decimal_digits [of v] by (auto simp: pad is_digit_def)
  have val: "decimal_value c0 = v"
    by (simp add: pad decimal_value_zeros decimal_value_decimal)
  from r c pad len dig val show ?thesis
    unfolding c0_def by blast
qed

theorem code_is_zero_padded_decimal_witness:
  "(\<exists>s'. get_next_code test_env 0 boot_state = Returns s'
          \<and> emitted_codes (new_events boot_state s') = [''001234''])
   \<and> (\<exists>s'. get_next_code test_env 3 boot_state = Returns s'
          \<and> emitted_codes (new_events boot_state s') = [''00001234''])
   \<and> is_digit CHR ''0'' \<and> is_digit CHR ''1''"
proof -
  have h2: "length (keys boot_state) = 4" by (simp add: boot_state_def)
  have b0: "in_bounds 0" and b3: "in_bounds 3" by (simp_all add: in_bounds_def NUM_KEYS_def)
  have d0: "decrypt test_env (iv (keys boot_state ! nat 0)) (key (keys boot_state ! nat 0))
              (len (keys boot_state ! nat 0)) = (0, replicate 64 0)"
    by (simp add: test_env_def boot_state_def zero_key_def)
  have d3: "decrypt test_env (iv (keys boot_state ! nat 3)) (key (keys boot_state ! nat 3))
              (len (keys boot_state ! nat 3)) = (0, replicate 64 0)"
    by (simp add: test_env_def boot_state_def zero_key_def)
  have k0: "nat (key_digits ! nat 0) = 6" and k3: "nat (key_digits ! nat 3) = 8"
    by (simp_all add: key_digits_def)
  have v6: "(1234::nat) = unat (dynamic_truncate digest_1234) mod 10 ^ 6"
    and v8: "(1234::nat) = unat (dynamic_truncate digest_1234) mod 10 ^ 8"
    by (simp_all add: truncate_digest_1234)
  from code_is_zero_padded_decimal [OF b0 h2 refl d0 test_env_hmac k0 [symmetric] v6]
  have w0: "\<exists>s'. get_next_code test_env 0 boot_state = Returns s'
          \<and> emitted_codes (new_events boot_state s') = [''001234'']"
    and dg: "is_digit CHR ''0'' \<and> is_digit CHR ''1''"
    by (auto simp: decimal_1234 replicate_zeros)
  from code_is_zero_padded_decimal [OF b3 h2 refl d3 test_env_hmac k3 [symmetric] v8]
  have w3: "\<exists>s'. get_next_code test_env 3 boot_state = Returns s'
          \<and> emitted_codes (new_events boot_state s') = [''00001234'']"
    by (auto simp: decimal_1234 replicate_zeros)
  from w0 w3 dg show ?thesis by blast
qed

text \<open>
  C10. The claim is that every access to \<^verbatim>\<open>keys\<close> made from the main loop uses an
  index below \<^verbatim>\<open>NUM_KEYS\<close>, whatever button the driver reports. Only the branch that
  generates a code tests \<^verbatim>\<open>btn_num < NUM_KEYS\<close>. On a board with a fifth button
  (index 4), a short press reaches \<^verbatim>\<open>keys[4].len == 0\<close>, and a hold followed by a
  secret typed on the console reaches \<^verbatim>\<open>program_secret(4, ...)\<close>: both index the
  four-entry array at 4.
\<close>

theorem button_beyond_keys_out_of_bounds:
  "main_loop_body e [(4, 1)] 0 s = OutOfBounds 4
   \<and> main_loop_body e [(4, 1)] 1 (s\<lparr>console_input := ''A'' @ [CHR 0x0A]\<rparr>) = OutOfBounds 4"
  by (simp add: main_loop_body_def button_upcall_def keys_at_def bind_outcome_def in_bounds_def
        NUM_KEYS_def program_new_secret_def emit_def isalnum_def program_secret_def Let_def
        split: prod.splits)

end
